theory Spec2Isabelle
  imports Main "HOL-Library.Word"
begin

section \<open>The TCP server of package mytcp\<close>

text \<open>
  A shallow embedding of \<^verbatim>\<open>mytcp/tcp_server.go\<close> and of the routing callback of the
  server's \<^verbatim>\<open>main\<close>. Blocking operations, panics and task exits are values of the
  model; the environment (socket reads, writes, accepts, the codec) is an input.
\<close>

subsection \<open>Data\<close>

type_synonym u32 = "32 word"
type_synonym u16 = "16 word"
type_synonym bytes = "8 word list"

text \<open>
  What an observer sees of a run: channel closes, the panic of a \<^verbatim>\<open>close\<close> on a closed
  channel, callback invocations, log lines, socket writes and completed channel
  operations, in the order they happen.
\<close>

datatype event =
    EvCloseWaitConn
  | EvPanicCloseOfClosed
  | EvCloseCallback bool bool
  | EvReceiveCallback bytes
  | EvLogPrint bytes
  | EvWrite bytes
  | EvReaderDrain bytes
  | EvSendDone bytes

text \<open>
  The logger is zerolog. \<^verbatim>\<open>log.Err(err)\<close> only starts an event at error level; a line
  is written when the event is sent with \<^verbatim>\<open>Msg\<close> or \<^verbatim>\<open>Send\<close>. The source sends none
  of the events it starts with \<^verbatim>\<open>log.Err\<close> (lines 73, 141, 172, 222), so these calls
  write nothing. \<^verbatim>\<open>log.Print\<close> (line 145) sends its event.
\<close>

definition log_Err :: "event list \<Rightarrow> event list" where
  "log_Err tr = tr"

definition log_Print :: "bytes \<Rightarrow> event list \<Rightarrow> event list" where
  "log_Print msg tr = tr @ [EvLogPrint msg]"

text \<open>
  \<^verbatim>\<open>net.Conn\<close>: the number of \<^verbatim>\<open>Close\<close> calls it has received and the frames written
  to it.
\<close>

record netConn =
  closeCalls :: nat
  written :: "bytes list"

text \<open>
  \<^verbatim>\<open>TcpConn\<close>. The channels \<^verbatim>\<open>input\<close> and \<open>output\<close> are unbuffered
  (\<^verbatim>\<open>make(chan []byte)\<close>): they hold no data, a send completes only together with
  a receive, so their state is the state of the tasks blocked on them.
  \<open>waitConn\<close> is never sent on, only closed: its state is whether it is closed.
\<close>

record TcpConn =
  conn :: netConn
  id :: u32
  waitConn :: bool

text \<open>
  The callbacks act on a world \<open>'w\<close> outside the server. A slot is \<open>None\<close> when it
  holds \<^verbatim>\<open>nil\<close>.
\<close>

type_synonym 'w CloseCallback = "TcpConn \<Rightarrow> bool \<Rightarrow> bool \<Rightarrow> 'w \<Rightarrow> 'w"
type_synonym 'w ReceiveCallback = "TcpConn \<Rightarrow> bytes \<Rightarrow> 'w \<Rightarrow> 'w"

text \<open>
  \<^verbatim>\<open>tcpServer\<close>. \<open>listener\<close> is \<open>None\<close> for \<^verbatim>\<open>nil\<close> and otherwise the number of
  \<^verbatim>\<open>Close\<close> calls the listener has received; \<open>conns\<close> is the \<^verbatim>\<open>sync.Map\<close> as an
  association list; \<open>lock\<close> is whether the mutex is held.
\<close>

record 'w tcpServer =
  listener :: "nat option"
  closeCallback :: "'w CloseCallback option"
  receiveCallback :: "'w ReceiveCallback option"
  addr :: string
  conns :: "(u32 \<times> TcpConn) list"
  lastId :: u32
  stop :: int
  lock :: bool

text \<open>How a call ends: it returns, it never gets past a blocking operation, or it panics.\<close>

datatype 'a outcome = Returned 'a | Blocked | Panicked 'a

subsection \<open>Construction and callbacks\<close>

definition NewTcpServer :: "string \<Rightarrow> 'w tcpServer" where
  "NewTcpServer port =
     \<lparr> listener = None,
       closeCallback = Some (\<lambda>c isServer isClient w. w),
       receiveCallback = Some (\<lambda>c bt w. w),
       addr = '':'' @ port,
       conns = [],
       lastId = 0,
       stop = 0,
       lock = False \<rparr>"

definition OnReceive :: "'w ReceiveCallback option \<Rightarrow> 'w tcpServer \<Rightarrow> 'w tcpServer" where
  "OnReceive f l = l\<lparr>receiveCallback := f\<rparr>"

definition OnClose :: "'w CloseCallback option \<Rightarrow> 'w tcpServer \<Rightarrow> 'w tcpServer" where
  "OnClose f l = l\<lparr>closeCallback := f\<rparr>"

text \<open>
  \<^verbatim>\<open>handelReadClose\<close>: \<^verbatim>\<open>close(conn.waitConn)\<close> panics on a channel that is closed
  already (\<open>None\<close>); then the callback runs when the slot is not nil.
\<close>

definition handelReadClose ::
  "'w tcpServer \<Rightarrow> TcpConn \<Rightarrow> bool \<Rightarrow> bool \<Rightarrow> 'w \<times> event list
     \<Rightarrow> (TcpConn \<times> 'w \<times> event list) option" where
  "handelReadClose l c isServer isClient st =
     (if waitConn c then None
      else
        let c' = c\<lparr>waitConn := True\<rparr>;
            tr = snd st @ [EvCloseWaitConn]
        in (case closeCallback l of
              None \<Rightarrow> Some (c', fst st, tr)
            | Some f \<Rightarrow>
                Some (c', f c' isServer isClient (fst st),
                      tr @ [EvCloseCallback isServer isClient])))"

definition handelReceive ::
  "'w tcpServer \<Rightarrow> TcpConn \<Rightarrow> bytes \<Rightarrow> 'w \<times> event list \<Rightarrow> 'w \<times> event list" where
  "handelReceive l c bt st =
     (case receiveCallback l of
        None \<Rightarrow> st
      | Some f \<Rightarrow> (f c bt (fst st), snd st @ [EvReceiveCallback bt]))"

subsection \<open>The registry and the id counter\<close>

definition saveConn :: "u32 \<Rightarrow> TcpConn \<Rightarrow> 'w tcpServer \<Rightarrow> 'w tcpServer" where
  "saveConn i c l = l\<lparr>conns := (i, c) # filter (\<lambda>p. fst p \<noteq> i) (conns l)\<rparr>"

definition getConnById :: "'w tcpServer \<Rightarrow> u32 \<Rightarrow> TcpConn option" where
  "getConnById l i = map_of (conns l) i"

definition atomic_LoadUint32 :: "'w tcpServer \<Rightarrow> u32" where
  "atomic_LoadUint32 l = lastId l"

definition atomic_CompareAndSwapUint32 ::
  "'w tcpServer \<Rightarrow> u32 \<Rightarrow> u32 \<Rightarrow> bool \<times> 'w tcpServer" where
  "atomic_CompareAndSwapUint32 l old new =
     (if lastId l = old then (True, l\<lparr>lastId := new\<rparr>) else (False, l))"

subsection \<open>Shutdown\<close>

definition closeConn :: "TcpConn \<Rightarrow> TcpConn" where
  "closeConn c = c\<lparr>conn := (conn c)\<lparr>closeCalls := Suc (closeCalls (conn c))\<rparr>\<rparr>"

text \<open>
  \<^verbatim>\<open>Shutdown\<close>. \<^verbatim>\<open>l.lock.Lock()\<close> does not return while the mutex is held. The
  deferred \<^verbatim>\<open>Unlock\<close> runs on every way out, also when \<^verbatim>\<open>l.listener.Close()\<close> panics
  on a nil listener.
\<close>

definition Shutdown :: "'w tcpServer \<Rightarrow> 'w tcpServer outcome" where
  "Shutdown l =
     (if lock l then Blocked
      else if stop l \<noteq> 0 then Returned (l\<lparr>lock := False\<rparr>)
      else
        let l2 = l\<lparr>stop := 2, conns := map (\<lambda>p. (fst p, closeConn (snd p))) (conns l)\<rparr>
        in (case listener l2 of
              None \<Rightarrow> Panicked (l2\<lparr>lock := False\<rparr>)
            | Some n \<Rightarrow> Returned (l2\<lparr>listener := Some (Suc n), lock := False\<rparr>)))"

text \<open>The server after a call, whatever its end; a blocked call has changed nothing.\<close>

fun after :: "'w tcpServer \<Rightarrow> 'w tcpServer outcome \<Rightarrow> 'w tcpServer" where
  "after l (Returned l') = l'"
| "after l Blocked = l"
| "after l (Panicked l') = l'"

fun Shutdown_times :: "nat \<Rightarrow> 'w tcpServer \<Rightarrow> 'w tcpServer" where
  "Shutdown_times 0 l = l"
| "Shutdown_times (Suc n) l = Shutdown_times n (after l (Shutdown l))"

text \<open>
  \<^verbatim>\<open>getConnAutoIncId\<close> run by one caller with no other task in between: the
  compare-and-swap sees the value just loaded.
\<close>

function getConnAutoIncId :: "'w tcpServer \<Rightarrow> u32 \<times> 'w tcpServer" where
  "getConnAutoIncId l =
     (if fst (atomic_CompareAndSwapUint32 l (atomic_LoadUint32 l) (atomic_LoadUint32 l + 1))
      then (atomic_LoadUint32 l + 1,
            snd (atomic_CompareAndSwapUint32 l (atomic_LoadUint32 l) (atomic_LoadUint32 l + 1)))
      else getConnAutoIncId
            (snd (atomic_CompareAndSwapUint32 l (atomic_LoadUint32 l) (atomic_LoadUint32 l + 1))))"
  by pat_completeness auto
termination
  by (relation "{}") (simp_all add: atomic_CompareAndSwapUint32_def atomic_LoadUint32_def)

subsection \<open>The accept loop and the Sender's loop body\<close>

datatype accept_result = AcceptOk netConn | AcceptOpError | AcceptOtherError
datatype write_result = WriteOk | WriteErr

text \<open>
  The closure \<^verbatim>\<open>Start\<close> passes to \<^verbatim>\<open>LoopAccept\<close>: a new id, a new \<^verbatim>\<open>TcpConn\<close>, its
  three tasks started, the connection stored.
\<close>

definition acceptConn :: "netConn \<Rightarrow> 'w tcpServer \<Rightarrow> 'w tcpServer" where
  "acceptConn nc l =
     (let (newId, l1) = getConnAutoIncId l;
          myConn = \<lparr> conn = nc, id = newId, waitConn = False \<rparr>
      in saveConn newId myConn l1)"

text \<open>
  One iteration of \<^verbatim>\<open>LoopAccept\<close>; the flag says whether the loop goes on. On the
  branch \<^verbatim>\<open>l.stop != 0\<close> the loop continues with the mutex held.
\<close>

definition LoopAccept_iter ::
  "'w tcpServer \<Rightarrow> accept_result \<Rightarrow> (bool \<times> 'w tcpServer) outcome" where
  "LoopAccept_iter l r =
     (case r of
        AcceptOpError \<Rightarrow> Returned (False, l)
      | AcceptOtherError \<Rightarrow> Returned (False, l)
      | AcceptOk nc \<Rightarrow>
          if lock l then Blocked
          else if stop (l\<lparr>lock := True\<rparr>) \<noteq> 0 then Returned (True, l\<lparr>lock := True\<rparr>)
          else Returned (True, (acceptConn nc (l\<lparr>lock := True\<rparr>))\<lparr>lock := False\<rparr>))"

text \<open>
  One iteration of \<^verbatim>\<open>ConsumeInput\<close> after \<^verbatim>\<open>msg\<close> was received from
  \<^verbatim>\<open>conn.input\<close>, up to the next \<^verbatim>\<open>select\<close>. Every branch goes on with the loop; only
  the last one reaches \<^verbatim>\<open>l.lock.Unlock()\<close>.
\<close>

definition ConsumeInput_item ::
  "'w tcpServer \<Rightarrow> TcpConn \<Rightarrow> bytes \<Rightarrow> write_result \<Rightarrow> event list
     \<Rightarrow> ('w tcpServer \<times> TcpConn \<times> event list) outcome" where
  "ConsumeInput_item l c msg wr tr =
     (if lock l then Blocked
      else if stop (l\<lparr>lock := True\<rparr>) \<noteq> 0 then Returned (l\<lparr>lock := True\<rparr>, c, tr)
      else (case wr of
              WriteErr \<Rightarrow> Returned (l\<lparr>lock := True\<rparr>, c, log_Err tr)
            | WriteOk \<Rightarrow>
                Returned (l\<lparr>lock := False\<rparr>,
                          c\<lparr>conn := (conn c)\<lparr>written := written (conn c) @ [msg]\<rparr>\<rparr>,
                          log_Print msg (tr @ [EvWrite msg]))))"

definition listen :: "bool \<Rightarrow> 'w tcpServer \<Rightarrow> 'w tcpServer" where
  "listen ok l = (if ok then l\<lparr>listener := Some 0\<rparr> else l)"

subsection \<open>Runs of the server\<close>

text \<open>
  The operations that touch the server's fields, as one task after the other performs
  them. An operation that blocks leaves the server as it is.
\<close>

datatype 'w op =
    OpShutdown
  | OpListen bool
  | OpAccept accept_result
  | OpConsumeInput TcpConn bytes write_result
  | OpOnReceive "'w ReceiveCallback option"
  | OpOnClose "'w CloseCallback option"

fun apply_op :: "'w tcpServer \<Rightarrow> 'w op \<Rightarrow> 'w tcpServer" where
  "apply_op l OpShutdown = after l (Shutdown l)"
| "apply_op l (OpListen ok) = listen ok l"
| "apply_op l (OpAccept r) =
     (case LoopAccept_iter l r of Returned (b, l') \<Rightarrow> l' | Blocked \<Rightarrow> l | Panicked (b, l') \<Rightarrow> l')"
| "apply_op l (OpConsumeInput c msg wr) =
     (case ConsumeInput_item l c msg wr [] of
        Returned (l', c', tr) \<Rightarrow> l' | Blocked \<Rightarrow> l | Panicked (l', c', tr) \<Rightarrow> l')"
| "apply_op l (OpOnReceive f) = OnReceive f l"
| "apply_op l (OpOnClose f) = OnClose f l"

fun exec :: "'w tcpServer \<Rightarrow> 'w op list \<Rightarrow> 'w tcpServer" where
  "exec l [] = l"
| "exec l (x # xs) = exec (apply_op l x) xs"

text \<open>The number of operations of a run that change \<open>stop\<close>.\<close>

fun stop_changes :: "'w tcpServer \<Rightarrow> 'w op list \<Rightarrow> nat" where
  "stop_changes l [] = 0"
| "stop_changes l (x # xs) =
     (if stop (apply_op l x) = stop l then 0 else 1) + stop_changes (apply_op l x) xs"

subsection \<open>An example server\<close>

text \<open>A server that listens on port 989 and has accepted two connections.\<close>

definition srv0 :: "unit tcpServer" where
  "srv0 = exec (NewTcpServer ''989'')
     [OpListen True,
      OpAccept (AcceptOk \<lparr>closeCalls = 0, written = []\<rparr>),
      OpAccept (AcceptOk \<lparr>closeCalls = 0, written = []\<rparr>)]"

subsection \<open>Concurrent callers of the id counter\<close>

text \<open>
  Several tasks inside \<^verbatim>\<open>getConnAutoIncId\<close> at once. A task is about to load
  \<open>lastId\<close> (\<open>AtLoad\<close>) or has loaded \<^verbatim>\<open>old\<close> and is about to compare and swap
  (\<open>AtCas old\<close>). A schedule names the task that takes the next atomic step. A
  successful swap returns \<^verbatim>\<open>old + 1\<close>, which is recorded with the task's number; the task
  then starts its next call. A failed swap goes round the loop.
\<close>

datatype caller = AtLoad | AtCas u32

record 'w alloc_sys =
  asrv :: "'w tcpServer"
  callers :: "nat \<Rightarrow> caller"
  returned :: "(nat \<times> u32) list"

definition alloc_step :: "'w alloc_sys \<Rightarrow> nat \<Rightarrow> 'w alloc_sys" where
  "alloc_step s i =
     (case callers s i of
        AtLoad \<Rightarrow> s\<lparr>callers := (callers s)(i := AtCas (atomic_LoadUint32 (asrv s)))\<rparr>
      | AtCas old \<Rightarrow>
          (let r = atomic_CompareAndSwapUint32 (asrv s) old (old + 1)
           in if fst r
              then s\<lparr>asrv := snd r, callers := (callers s)(i := AtLoad),
                     returned := returned s @ [(i, old + 1)]\<rparr>
              else s\<lparr>asrv := snd r, callers := (callers s)(i := AtLoad)\<rparr>))"

fun alloc_run :: "'w alloc_sys \<Rightarrow> nat list \<Rightarrow> 'w alloc_sys" where
  "alloc_run s [] = s"
| "alloc_run s (i # sched) = alloc_run (alloc_step s i) sched"

definition alloc_init :: "'w tcpServer \<Rightarrow> 'w alloc_sys" where
  "alloc_init l = \<lparr> asrv = l, callers = (\<lambda>i. AtLoad), returned = [] \<rparr>"

definition ids :: "'w alloc_sys \<Rightarrow> u32 list" where
  "ids s = map snd (returned s)"

subsection \<open>The three tasks of a connection\<close>

datatype read_result = ReadOk bytes | ReadEOF | ReadOpError | ReadOtherError

text \<open>
  Where each task stands. \<^verbatim>\<open>LoopRead\<close> is at its \<^verbatim>\<open>select\<close>, blocked in
  \<^verbatim>\<open>conn.output <- bt\<close>, or has returned. \<^verbatim>\<open>ConsumeInput\<close> is at its \<^verbatim>\<open>select\<close>, has
  received a message and is at \<^verbatim>\<open>l.lock.Lock()\<close>, or has returned. \<^verbatim>\<open>ConsumeOutput\<close> is
  at its \<^verbatim>\<open>select\<close>, has received a message and is about to print and deliver it, or
  has returned.
\<close>

datatype reader_pc = RSelect | RSend bytes | RExited
datatype sender_pc = SSelect | SLock bytes | SExited
datatype disp_pc = DSelect | DHandle bytes | DExited

text \<open>
  A connection with its tasks, the server they share, and the callers blocked in
  \<^verbatim>\<open>conn.input <- v\<close> (the send of \<^verbatim>\<open>Send\<close> and of \<^verbatim>\<open>Broadcast\<close>). \<open>printed\<close> is what
  \<^verbatim>\<open>ConsumeOutput\<close> has printed; \<open>crashed\<close> says that a task has panicked.
\<close>

record 'w sys =
  srv :: "'w tcpServer"
  cn :: TcpConn
  reader :: reader_pc
  sender :: sender_pc
  dispatcher :: disp_pc
  sending :: "bytes list"
  world :: 'w
  trace :: "event list"
  printed :: "bytes list"
  crashed :: bool

definition sys_init :: "'w tcpServer \<Rightarrow> netConn \<Rightarrow> u32 \<Rightarrow> 'w \<Rightarrow> 'w sys" where
  "sys_init l nc newId w =
     \<lparr> srv = l, cn = \<lparr> conn = nc, id = newId, waitConn = False \<rparr>,
       reader = RSelect, sender = SSelect, dispatcher = DSelect,
       sending = [], world = w, trace = [], printed = [], crashed = False \<rparr>"

text \<open>
  The tasks blocked in a send on \<^verbatim>\<open>conn.output\<close>. The only send on that channel is the
  one of \<^verbatim>\<open>LoopRead\<close>.
\<close>

definition output_senders :: "'w sys \<Rightarrow> bytes list" where
  "output_senders s = (case reader s of RSend bt \<Rightarrow> [bt] | _ \<Rightarrow> [])"

text \<open>
  The \<^verbatim>\<open>default\<close> branch of \<^verbatim>\<open>LoopRead\<close>: one \<^verbatim>\<open>Read\<close> and what follows it, up to
  the send on \<^verbatim>\<open>conn.output\<close>.
\<close>

definition readerRead :: "'w sys \<Rightarrow> read_result \<Rightarrow> 'w sys" where
  "readerRead s r =
     (case r of
        ReadOk bt \<Rightarrow> s\<lparr>reader := RSend bt\<rparr>
      | ReadEOF \<Rightarrow>
          (case handelReadClose (srv s) (cn s) False True (world s, trace s) of
             None \<Rightarrow> s\<lparr>trace := trace s @ [EvPanicCloseOfClosed], crashed := True\<rparr>
           | Some (c, w, tr) \<Rightarrow> s\<lparr>cn := c, world := w, trace := tr, reader := RExited\<rparr>)
      | ReadOpError \<Rightarrow>
          (case handelReadClose (srv s) (cn s) True False (world s, trace s) of
             None \<Rightarrow> s\<lparr>trace := trace s @ [EvPanicCloseOfClosed], crashed := True\<rparr>
           | Some (c, w, tr) \<Rightarrow> s\<lparr>cn := c, world := w, trace := tr, reader := RExited\<rparr>)
      | ReadOtherError \<Rightarrow> s\<lparr>trace := log_Err (trace s), reader := RExited\<rparr>)"

text \<open>
  The atomic steps of the tasks and of their environment. A \<^verbatim>\<open>select\<close> takes any
  branch that is ready and its \<^verbatim>\<open>default\<close> only when none is.
\<close>

datatype action =
    ReaderQuit
  | ReaderDrain
  | ReaderRead read_result
  | DispQuit
  | DispRecv
  | DispHandle
  | SenderQuit
  | SenderRecv nat
  | SenderLock write_result
  | CallSend bytes
  | CallShutdown

fun enabled_step :: "'w sys \<Rightarrow> action \<Rightarrow> 'w sys option" where
  "enabled_step s ReaderQuit =
     (if reader s = RSelect \<and> waitConn (cn s) then Some (s\<lparr>reader := RExited\<rparr>) else None)"
| "enabled_step s ReaderDrain =
     (if reader s = RSelect
      then (case output_senders s of
              [] \<Rightarrow> None
            | bt # rest \<Rightarrow> Some (s\<lparr>trace := trace s @ [EvReaderDrain bt]\<rparr>))
      else None)"
| "enabled_step s (ReaderRead r) =
     (if reader s = RSelect \<and> \<not> waitConn (cn s) \<and> output_senders s = []
      then Some (readerRead s r) else None)"
| "enabled_step s DispQuit =
     (if dispatcher s = DSelect \<and> waitConn (cn s) then Some (s\<lparr>dispatcher := DExited\<rparr>)
      else None)"
| "enabled_step s DispRecv =
     (if dispatcher s = DSelect
      then (case output_senders s of
              [] \<Rightarrow> None
            | bt # rest \<Rightarrow> Some (s\<lparr>reader := RSelect, dispatcher := DHandle bt\<rparr>))
      else None)"
| "enabled_step s DispHandle =
     (case dispatcher s of
        DHandle bt \<Rightarrow>
          (let st = handelReceive (srv s) (cn s) bt (world s, trace s)
           in Some (s\<lparr>printed := printed s @ [bt], world := fst st, trace := snd st,
                      dispatcher := DSelect\<rparr>))
      | _ \<Rightarrow> None)"
| "enabled_step s SenderQuit =
     (if sender s = SSelect \<and> waitConn (cn s) then Some (s\<lparr>sender := SExited\<rparr>) else None)"
| "enabled_step s (SenderRecv i) =
     (if sender s = SSelect \<and> i < length (sending s)
      then Some (s\<lparr>sending := take i (sending s) @ drop (Suc i) (sending s),
                   trace := trace s @ [EvSendDone (sending s ! i)],
                   sender := SLock (sending s ! i)\<rparr>)
      else None)"
| "enabled_step s (SenderLock wr) =
     (case sender s of
        SLock msg \<Rightarrow>
          (case ConsumeInput_item (srv s) (cn s) msg wr (trace s) of
             Returned (l, c, tr) \<Rightarrow> Some (s\<lparr>srv := l, cn := c, trace := tr, sender := SSelect\<rparr>)
           | Blocked \<Rightarrow> None
           | Panicked (l, c, tr) \<Rightarrow> Some (s\<lparr>srv := l, cn := c, trace := tr, crashed := True\<rparr>))
      | _ \<Rightarrow> None)"
| "enabled_step s (CallSend v) = Some (s\<lparr>sending := sending s @ [v]\<rparr>)"
| "enabled_step s CallShutdown =
     (case Shutdown (srv s) of
        Returned l \<Rightarrow> Some (s\<lparr>srv := l\<rparr>)
      | Blocked \<Rightarrow> None
      | Panicked l \<Rightarrow> Some (s\<lparr>srv := l, crashed := True\<rparr>))"

text \<open>Nothing runs once a task has panicked.\<close>

definition step :: "'w sys \<Rightarrow> action \<Rightarrow> 'w sys option" where
  "step s a = (if crashed s then None else enabled_step s a)"

fun run :: "'w sys \<Rightarrow> action list \<Rightarrow> 'w sys option" where
  "run s [] = Some s"
| "run s (a # as) = (case step s a of None \<Rightarrow> None | Some s' \<Rightarrow> run s' as)"

text \<open>What a run tells: the frames read, and how often the channel and the callback fired.\<close>

fun frames_read :: "action list \<Rightarrow> bytes list" where
  "frames_read [] = []"
| "frames_read (ReaderRead (ReadOk bt) # as) = bt # frames_read as"
| "frames_read (a # as) = frames_read as"

fun is_close_callback :: "event \<Rightarrow> bool" where
  "is_close_callback (EvCloseCallback a b) = True"
| "is_close_callback e = False"

fun is_send_done :: "event \<Rightarrow> bool" where
  "is_send_done (EvSendDone v) = True"
| "is_send_done e = False"

fun is_reader_drain :: "event \<Rightarrow> bool" where
  "is_reader_drain (EvReaderDrain v) = True"
| "is_reader_drain e = False"

definition closes :: "event list \<Rightarrow> nat" where
  "closes tr = length (filter (\<lambda>e. e = EvCloseWaitConn) tr)"

definition close_callbacks :: "event list \<Rightarrow> nat" where
  "close_callbacks tr = length (filter is_close_callback tr)"

text \<open>How often \<^verbatim>\<open>close(conn.waitConn)\<close> was run on the channel when it was closed already.\<close>

definition close_panics :: "event list \<Rightarrow> nat" where
  "close_panics tr = length (filter (\<lambda>e. e = EvPanicCloseOfClosed) tr)"

text \<open>The frames that have left the Reader and that the Dispatcher has not yet delivered.\<close>

definition in_flight :: "'w sys \<Rightarrow> bytes list" where
  "in_flight s =
     (case dispatcher s of DHandle bt \<Rightarrow> [bt] | _ \<Rightarrow> []) @ output_senders s"

text \<open>The frames the receive callback was called with, and the sends that have completed.\<close>

fun delivered :: "event list \<Rightarrow> bytes list" where
  "delivered [] = []"
| "delivered (EvReceiveCallback bt # es) = bt # delivered es"
| "delivered (e # es) = delivered es"

definition sends_done :: "event list \<Rightarrow> event list" where
  "sends_done tr = filter is_send_done tr"

text \<open>
  The steps of the Dispatcher that deliver what is in flight: the frame it holds, then
  the frame the Reader is sending.
\<close>

definition flush :: "'w sys \<Rightarrow> action list" where
  "flush s =
     (case dispatcher s of DHandle bt \<Rightarrow> [DispHandle] | _ \<Rightarrow> [])
     @ (case reader s of RSend bt \<Rightarrow> [DispRecv, DispHandle] | _ \<Rightarrow> [])"

text \<open>An accepted socket with nothing written to it.\<close>

definition nc0 :: netConn where
  "nc0 = \<lparr> closeCalls = 0, written = [] \<rparr>"

subsection \<open>What the callbacks add to a run\<close>

text \<open>
  The events and the world after the two lines of \<^verbatim>\<open>handelReadClose\<close>, and the event
  of \<^verbatim>\<open>handelReceive\<close>, by whether the slot is nil.
\<close>

definition close_events :: "'w tcpServer \<Rightarrow> bool \<Rightarrow> bool \<Rightarrow> event list" where
  "close_events l a b =
     EvCloseWaitConn # (case closeCallback l of None \<Rightarrow> [] | Some f \<Rightarrow> [EvCloseCallback a b])"

definition close_world :: "'w tcpServer \<Rightarrow> TcpConn \<Rightarrow> bool \<Rightarrow> bool \<Rightarrow> 'w \<Rightarrow> 'w" where
  "close_world l c a b w =
     (case closeCallback l of None \<Rightarrow> w | Some f \<Rightarrow> f (c\<lparr>waitConn := True\<rparr>) a b w)"

definition receive_events :: "'w tcpServer \<Rightarrow> bytes \<Rightarrow> event list" where
  "receive_events l bt =
     (case receiveCallback l of None \<Rightarrow> [] | Some f \<Rightarrow> [EvReceiveCallback bt])"

definition drains :: "event list \<Rightarrow> event list" where
  "drains tr = filter is_reader_drain tr"

text \<open>
  What holds of a connection at every moment: the channel has been closed once if it is
  closed and never otherwise, the callback has run once if the channel is closed and
  the slot is not nil, the Reader has returned once the channel is closed, and no other
  task has returned before.
\<close>

definition close_inv :: "'w sys \<Rightarrow> bool" where
  "close_inv s =
     (closes (trace s) = (if waitConn (cn s) then 1 else 0)
      \<and> close_callbacks (trace s)
          = (if waitConn (cn s) \<and> closeCallback (srv s) \<noteq> None then 1 else 0)
      \<and> (if waitConn (cn s) then reader s = RExited
          else dispatcher s \<noteq> DExited \<and> sender s \<noteq> SExited))"

text \<open>
  A new connection of a new server, and the same connection after the peer has closed
  it and the Sender has returned.
\<close>

definition sys0 :: "unit sys" where
  "sys0 = sys_init (NewTcpServer ''989'') nc0 1 ()"

definition sys_closed :: "unit sys" where
  "sys_closed = sys0\<lparr>cn := (cn sys0)\<lparr>waitConn := True\<rparr>,
                     trace := [EvCloseWaitConn, EvCloseCallback False True],
                     reader := RExited, sender := SExited\<rparr>"

subsection \<open>The router of the server's main\<close>

text \<open>
  \<^verbatim>\<open>RouteInfo\<close>: a handler and a request prototype (\<open>None\<close> for \<^verbatim>\<open>nil\<close>). Handlers are
  known by name; \<open>'p\<close> is the type of prototypes. The codec (package \<^verbatim>\<open>btmsg\<close>) is outside
  the repository's sources: a message shows its action code, and \<^verbatim>\<open>ToStruct\<close> is a
  parameter that returns Go's two results, the decoded request and the error, each
  \<open>None\<close> for \<^verbatim>\<open>nil\<close>.
\<close>

record ('h, 'p) RouteInfo =
  Handle :: 'h
  Info :: "'p option"

record IMsg =
  act :: u16
  payload :: bytes

datatype ('h, 'q, 'e) route_event =
    LogNotFound u16
  | LogDecodeErr 'e
  | Invoke 'h TcpConn IMsg "'q option"

text \<open>
  What the callback shares with every other run of itself: the variable \<^verbatim>\<open>err\<close> of
  \<^verbatim>\<open>main\<close>, declared by \<^verbatim>\<open>wg, err := server.Start()\<close> and assigned by the callback's
  \<^verbatim>\<open>info, err = msg.ToStruct(hv.Info)\<close>; and what the callbacks have printed and invoked,
  in order. \<^verbatim>\<open>info\<close> is declared inside the callback and is local to each run.
\<close>

record ('h, 'q, 'e) main_vars =
  main_err :: "'e option"
  routed :: "('h, 'q, 'e) route_event list"

text \<open>
  Where a run of the callback stands: called with a connection and a message; past the
  assignment of \<^verbatim>\<open>info\<close> and \<^verbatim>\<open>err\<close> and about to test \<^verbatim>\<open>err\<close>, holding the handler and
  its local \<^verbatim>\<open>info\<close>; returned; or panicked.
\<close>

datatype ('h, 'q) callback_pc =
    AtEntry TcpConn IMsg
  | AtErrTest 'h TcpConn IMsg "'q option"
  | CbDone
  | CbPanicked

text \<open>
  The lookup: the route of the action code, or, with the miss printed, the route of
  code 0, which is nil when the table has none.
\<close>

definition find_route ::
  "(u16 \<rightharpoonup> ('h, 'p) RouteInfo) \<Rightarrow> IMsg \<Rightarrow> ('h, 'q, 'e) main_vars
     \<Rightarrow> ('h, 'p) RouteInfo option \<times> ('h, 'q, 'e) main_vars" where
  "find_route routes msg v =
     (case routes (act msg) of
        Some hv \<Rightarrow> (Some hv, v)
      | None \<Rightarrow> (routes 0, v\<lparr>routed := routed v @ [LogNotFound (act msg)]\<rparr>))"

text \<open>
  The callback up to the test of \<^verbatim>\<open>err\<close>. \<^verbatim>\<open>hv.Info\<close> panics on a nil route. A route
  with no prototype goes straight to its handler; a route with a prototype decodes and
  assigns both results.
\<close>

definition callback_decode ::
  "(u16 \<rightharpoonup> ('h, 'p) RouteInfo) \<Rightarrow> (IMsg \<Rightarrow> 'p \<Rightarrow> 'q option \<times> 'e option)
     \<Rightarrow> TcpConn \<Rightarrow> IMsg \<Rightarrow> ('h, 'q, 'e) main_vars
     \<Rightarrow> ('h, 'q) callback_pc \<times> ('h, 'q, 'e) main_vars" where
  "callback_decode routes toStruct c msg v =
     (case find_route routes msg v of
        (None, v1) \<Rightarrow> (CbPanicked, v1)
      | (Some hv, v1) \<Rightarrow>
          (case Info hv of
             None \<Rightarrow> (CbDone, v1\<lparr>routed := routed v1 @ [Invoke (Handle hv) c msg None]\<rparr>)
           | Some proto \<Rightarrow>
               (AtErrTest (Handle hv) c msg (fst (toStruct msg proto)),
                v1\<lparr>main_err := snd (toStruct msg proto)\<rparr>)))"

text \<open>
  The rest of the callback: \<^verbatim>\<open>if err != nil\<close> reads the shared variable, prints it and
  returns, or else the handler is called with the local \<^verbatim>\<open>info\<close>.
\<close>

definition callback_test ::
  "'h \<Rightarrow> TcpConn \<Rightarrow> IMsg \<Rightarrow> 'q option \<Rightarrow> ('h, 'q, 'e) main_vars \<Rightarrow> ('h, 'q, 'e) main_vars" where
  "callback_test h c msg info v =
     (case main_err v of
        Some e \<Rightarrow> v\<lparr>routed := routed v @ [LogDecodeErr e]\<rparr>
      | None \<Rightarrow> v\<lparr>routed := routed v @ [Invoke h c msg info]\<rparr>)"

text \<open>The callback given to \<^verbatim>\<open>server.OnReceive\<close>, run from its call to its end with no
  other run of it in between.\<close>

definition onReceive ::
  "(u16 \<rightharpoonup> ('h, 'p) RouteInfo) \<Rightarrow> (IMsg \<Rightarrow> 'p \<Rightarrow> 'q option \<times> 'e option)
     \<Rightarrow> TcpConn \<Rightarrow> IMsg \<Rightarrow> ('h, 'q, 'e) main_vars
     \<Rightarrow> ('h, 'q) callback_pc \<times> ('h, 'q, 'e) main_vars" where
  "onReceive routes toStruct c msg v =
     (case callback_decode routes toStruct c msg v of
        (AtErrTest h c' msg' info, v1) \<Rightarrow> (CbDone, callback_test h c' msg' info v1)
      | (pc, v1) \<Rightarrow> (pc, v1))"

text \<open>
  The callback as the server runs it: \<^verbatim>\<open>ConsumeOutput\<close> calls it in the Dispatcher task
  of each connection, so several runs go on at once, one per connection, and a schedule
  names the run that takes the next step.
\<close>

record ('h, 'q, 'e) router_sys =
  vars :: "('h, 'q, 'e) main_vars"
  calls :: "nat \<Rightarrow> ('h, 'q) callback_pc"

definition router_step ::
  "(u16 \<rightharpoonup> ('h, 'p) RouteInfo) \<Rightarrow> (IMsg \<Rightarrow> 'p \<Rightarrow> 'q option \<times> 'e option)
     \<Rightarrow> ('h, 'q, 'e) router_sys \<Rightarrow> nat \<Rightarrow> ('h, 'q, 'e) router_sys" where
  "router_step routes toStruct s i =
     (case calls s i of
        AtEntry c msg \<Rightarrow>
          s\<lparr>vars := snd (callback_decode routes toStruct c msg (vars s)),
            calls := (calls s)(i := fst (callback_decode routes toStruct c msg (vars s)))\<rparr>
      | AtErrTest h c msg info \<Rightarrow>
          s\<lparr>vars := callback_test h c msg info (vars s), calls := (calls s)(i := CbDone)\<rparr>
      | CbDone \<Rightarrow> s
      | CbPanicked \<Rightarrow> s)"

fun router_run ::
  "(u16 \<rightharpoonup> ('h, 'p) RouteInfo) \<Rightarrow> (IMsg \<Rightarrow> 'p \<Rightarrow> 'q option \<times> 'e option)
     \<Rightarrow> ('h, 'q, 'e) router_sys \<Rightarrow> nat list \<Rightarrow> ('h, 'q, 'e) router_sys" where
  "router_run routes toStruct s [] = s"
| "router_run routes toStruct s (i # sched) =
     router_run routes toStruct (router_step routes toStruct s i) sched"

text \<open>The table that \<^verbatim>\<open>init\<close> builds.\<close>

datatype handler = handleDefault | handleShutdown
datatype proto = ShutdownReqProto
datatype request = ShutdownReq string

definition routes :: "u16 \<rightharpoonup> (handler, proto) RouteInfo" where
  "routes = [0 \<mapsto> \<lparr> Handle = handleDefault, Info = None \<rparr>,
             100 \<mapsto> \<lparr> Handle = handleShutdown, Info = Some ShutdownReqProto \<rparr>]"

text \<open>
  An example: a codec that fails on an empty payload; two connections; a message for
  code 100 that does not decode and one that does; and the server at the moment when
  the Dispatcher of connection 1 has been handed the first and the Dispatcher of
  connection 2 the second, \<^verbatim>\<open>err\<close> being nil after a successful \<^verbatim>\<open>Start\<close>.
\<close>

definition decode_ex :: "IMsg \<Rightarrow> proto \<Rightarrow> request option \<times> string option" where
  "decode_ex m p =
     (if payload m = [] then (None, Some ''unexpected end of input'')
      else (Some (ShutdownReq ''maintenance''), None))"

definition conn1 :: TcpConn where
  "conn1 = \<lparr> conn = nc0, id = 1, waitConn = False \<rparr>"

definition conn2 :: TcpConn where
  "conn2 = \<lparr> conn = nc0, id = 2, waitConn = False \<rparr>"

definition msg_bad :: IMsg where
  "msg_bad = \<lparr> act = 100, payload = [] \<rparr>"

definition msg_good :: IMsg where
  "msg_good = \<lparr> act = 100, payload = [123, 125] \<rparr>"

definition vars0 :: "(handler, request, string) main_vars" where
  "vars0 = \<lparr> main_err = None, routed = [] \<rparr>"

definition router0 :: "(handler, request, string) router_sys" where
  "router0 =
     \<lparr> vars = vars0,
       calls = (\<lambda>i. CbDone)(0 := AtEntry conn1 msg_bad, 1 := AtEntry conn2 msg_good) \<rparr>"

section \<open>Properties\<close>

subsection \<open>Facts about the server's operations\<close>

lemma getConnAutoIncId_eq:
  "getConnAutoIncId l = (lastId l + 1, l\<lparr>lastId := lastId l + 1\<rparr>)"
  by (simp add: atomic_CompareAndSwapUint32_def atomic_LoadUint32_def)

lemma srv0_eq:
  "srv0 = \<lparr> listener = Some 0,
       closeCallback = Some (\<lambda>c isServer isClient w. w),
       receiveCallback = Some (\<lambda>c bt w. w),
       addr = '':989'',
       conns = [(2, \<lparr>conn = \<lparr>closeCalls = 0, written = []\<rparr>, id = 2, waitConn = False\<rparr>),
                (1, \<lparr>conn = \<lparr>closeCalls = 0, written = []\<rparr>, id = 1, waitConn = False\<rparr>)],
       lastId = 2,
       stop = 0,
       lock = False \<rparr>"
  by (simp add: srv0_def NewTcpServer_def listen_def LoopAccept_iter_def acceptConn_def
       atomic_CompareAndSwapUint32_def atomic_LoadUint32_def saveConn_def)

lemma Shutdown_noop: "stop l \<noteq> 0 \<Longrightarrow> after l (Shutdown l) = l"
  by (simp add: Shutdown_def)

lemma Shutdown_after_stop: "\<not> lock l \<Longrightarrow> stop (after l (Shutdown l)) \<noteq> 0"
  by (simp add: Shutdown_def Let_def split: option.splits)

lemma Shutdown_blocked: "lock l \<Longrightarrow> after l (Shutdown l) = l"
  by (simp add: Shutdown_def)

lemma Shutdown_twice: "after (after l (Shutdown l)) (Shutdown (after l (Shutdown l))) = after l (Shutdown l)"
  by (cases "lock l") (simp_all add: Shutdown_blocked Shutdown_noop Shutdown_after_stop)

lemma Shutdown_times_fix: "after l (Shutdown l) = l \<Longrightarrow> Shutdown_times n l = l"
  by (induction n) simp_all

lemma Shutdown_times_Suc: "Shutdown_times (Suc n) l = after l (Shutdown l)"
  by (simp add: Shutdown_times_fix Shutdown_twice)

lemma Shutdown_first:
  "\<not> lock l \<Longrightarrow> stop l = 0 \<Longrightarrow> listener l = Some k \<Longrightarrow>
     Shutdown l = Returned (l\<lparr>stop := 2, conns := map (\<lambda>p. (fst p, closeConn (snd p))) (conns l),
                               listener := Some (Suc k), lock := False\<rparr>)"
  by (simp add: Shutdown_def Let_def)

lemma stop_acceptConn: "stop (acceptConn nc l) = stop l"
  by (simp add: acceptConn_def getConnAutoIncId_eq saveConn_def del: getConnAutoIncId.simps)

lemma stop_apply_op:
  "stop (apply_op l x) = (if x = OpShutdown \<and> \<not> lock l \<and> stop l = 0 then 2 else stop l)"
  by (cases x)
     (auto simp: Shutdown_def Let_def listen_def LoopAccept_iter_def ConsumeInput_item_def
        OnReceive_def OnClose_def stop_acceptConn
        split: option.splits accept_result.splits write_result.splits)

lemma stop_exec_range: "stop l \<in> {0, 2} \<Longrightarrow> stop (exec l xs) \<in> {0, 2}"
  by (induction xs arbitrary: l) (auto simp: stop_apply_op simp del: apply_op.simps)

lemma stop_exec_mono: "stop l \<le> stop (exec l xs)"
proof (induction xs arbitrary: l)
  case Nil show ?case by simp
next
  case (Cons x xs)
  have "stop l \<le> stop (apply_op l x)" by (simp add: stop_apply_op)
  also have "\<dots> \<le> stop (exec (apply_op l x) xs)" by (rule Cons.IH)
  finally show ?case by simp
qed

lemma exec_append: "exec l (xs @ ys) = exec (exec l xs) ys"
  by (induction xs arbitrary: l) simp_all

lemma stop_changes_count:
  "stop l \<in> {0, 2} \<Longrightarrow> stop_changes l xs = (if stop (exec l xs) = stop l then 0 else 1)"
proof (induction xs arbitrary: l)
  case Nil show ?case by simp
next
  case (Cons x xs)
  have r: "stop (apply_op l x) \<in> {0, 2}" using Cons.prems by (auto simp: stop_apply_op)
  have m: "stop (apply_op l x) \<le> stop (exec (apply_op l x) xs)" by (rule stop_exec_mono)
  have rr: "stop (exec (apply_op l x) xs) \<in> {0, 2}" using r by (rule stop_exec_range)
  have s: "stop l \<le> stop (apply_op l x)" by (simp add: stop_apply_op)
  show ?case using Cons.IH [OF r] Cons.prems r m rr s
    by (auto simp del: apply_op.simps)
qed

subsection \<open>Shutdown\<close>

text \<open>
  Claim C5. \<^verbatim>\<open>Shutdown\<close> is idempotent: any number of calls, one after the other, leaves
  the server as the first call left it, and a call after the first returns with nothing
  changed. So after any number of calls on a running, listening server the listener has
  received one \<^verbatim>\<open>Close\<close> and so has the socket of every registered connection.
\<close>

theorem Shutdown_idempotent:
  "Shutdown_times (Suc n) l = after l (Shutdown l)
   \<and> (\<not> lock l \<longrightarrow> Shutdown (after l (Shutdown l)) = Returned (after l (Shutdown l)))
   \<and> (\<not> lock l \<and> stop l = 0 \<and> listener l = Some k \<longrightarrow>
        listener (Shutdown_times (Suc n) l) = Some (Suc k)
        \<and> map fst (conns (Shutdown_times (Suc n) l)) = map fst (conns l)
        \<and> map (\<lambda>p. closeCalls (conn (snd p))) (conns (Shutdown_times (Suc n) l))
            = map (\<lambda>p. Suc (closeCalls (conn (snd p)))) (conns l))"
proof (intro conjI impI)
  show "Shutdown_times (Suc n) l = after l (Shutdown l)" by (rule Shutdown_times_Suc)
next
  assume "\<not> lock l"
  then have a: "stop (after l (Shutdown l)) \<noteq> 0" and b: "\<not> lock (after l (Shutdown l))"
    by (simp_all add: Shutdown_def Let_def split: option.splits)
  then show "Shutdown (after l (Shutdown l)) = Returned (after l (Shutdown l))"
    by (simp add: Shutdown_def)
next
  assume h: "\<not> lock l \<and> stop l = 0 \<and> listener l = Some k"
  then show "listener (Shutdown_times (Suc n) l) = Some (Suc k)"
    by (simp only: Shutdown_times_Suc) (simp add: Shutdown_first)
  from h show "map fst (conns (Shutdown_times (Suc n) l)) = map fst (conns l)"
    by (simp only: Shutdown_times_Suc) (simp add: Shutdown_first comp_def)
  from h show "map (\<lambda>p. closeCalls (conn (snd p))) (conns (Shutdown_times (Suc n) l))
            = map (\<lambda>p. Suc (closeCalls (conn (snd p)))) (conns l)"
    by (simp only: Shutdown_times_Suc) (simp add: Shutdown_first comp_def closeConn_def)
qed

theorem Shutdown_idempotent_witness:
  "\<not> lock srv0 \<and> stop srv0 = 0 \<and> listener srv0 = Some 0
   \<and> Shutdown (after srv0 (Shutdown srv0)) = Returned (after srv0 (Shutdown srv0))
   \<and> listener (Shutdown_times (Suc 2) srv0) = Some (Suc 0)
   \<and> map (\<lambda>p. closeCalls (conn (snd p))) (conns (Shutdown_times (Suc 2) srv0)) = [1, 1]"
proof -
  have a: "\<not> lock srv0 \<and> stop srv0 = 0 \<and> listener srv0 = Some 0"
    by (simp add: srv0_eq)
  have c: "map (\<lambda>p. Suc (closeCalls (conn (snd p)))) (conns srv0) = [1, 1]"
    by (simp add: srv0_eq)
  have t: "Shutdown (after srv0 (Shutdown srv0)) = Returned (after srv0 (Shutdown srv0))
     \<and> listener (Shutdown_times (Suc 2) srv0) = Some (Suc 0)
     \<and> map (\<lambda>p. closeCalls (conn (snd p))) (conns (Shutdown_times (Suc 2) srv0))
          = map (\<lambda>p. Suc (closeCalls (conn (snd p)))) (conns srv0)"
    using a Shutdown_idempotent [of 2 srv0 0] by blast
  show ?thesis using a t unfolding c by blast
qed

text \<open>
  Claim C6. From a new server, \<open>stop\<close> is 0 (running) or 2 (the phase \<^verbatim>\<open>Shutdown\<close>
  enters) after every run; it never decreases along a run; a run changes it at most once,
  and exactly once when it ends stopped; the operation that changes it is a \<^verbatim>\<open>Shutdown\<close>
  that got the mutex while \<open>stop\<close> was 0, and every such \<^verbatim>\<open>Shutdown\<close> changes it.
\<close>

theorem stop_phase_monotonic:
  "stop (exec (NewTcpServer port) xs) \<in> {0, 2}
   \<and> stop (exec l xs) \<le> stop (exec l (xs @ ys))
   \<and> stop_changes (NewTcpServer port) xs = (if stop (exec (NewTcpServer port) xs) = 0 then 0 else 1)
   \<and> (stop (apply_op l x) \<noteq> stop l \<longrightarrow>
        x = OpShutdown \<and> \<not> lock l \<and> stop l = 0 \<and> stop (apply_op l x) = 2)
   \<and> (\<not> lock l \<and> stop l = 0 \<longrightarrow> stop (apply_op l OpShutdown) = 2)"
proof (intro conjI)
  show "stop (exec (NewTcpServer port) xs) \<in> {0, 2}"
    by (intro stop_exec_range) (simp add: NewTcpServer_def)
  show "stop (exec l xs) \<le> stop (exec l (xs @ ys))"
    by (simp add: exec_append stop_exec_mono)
  show "stop_changes (NewTcpServer port) xs = (if stop (exec (NewTcpServer port) xs) = 0 then 0 else 1)"
    using stop_changes_count [of "NewTcpServer port" xs] by (simp add: NewTcpServer_def)
  show "stop (apply_op l x) \<noteq> stop l \<longrightarrow>
        x = OpShutdown \<and> \<not> lock l \<and> stop l = 0 \<and> stop (apply_op l x) = 2"
    by (simp add: stop_apply_op)
  show "\<not> lock l \<and> stop l = 0 \<longrightarrow> stop (apply_op l OpShutdown) = 2"
    by (simp add: stop_apply_op del: apply_op.simps)
qed

theorem stop_phase_monotonic_witness:
  "stop (exec srv0 [OpShutdown]) \<noteq> stop srv0 \<and> \<not> lock srv0 \<and> stop srv0 = 0
   \<and> stop (exec srv0 [OpShutdown]) = 2
   \<and> stop_changes (NewTcpServer ''989'' :: unit tcpServer) [OpListen True, OpShutdown, OpShutdown] = 1"
proof -
  have a: "\<not> lock srv0 \<and> stop srv0 = 0" by (simp add: srv0_eq)
  have b: "stop (exec (NewTcpServer ''989'' :: unit tcpServer) [OpListen True, OpShutdown, OpShutdown]) = 2"
    by (simp add: NewTcpServer_def listen_def Shutdown_def)
  note t = stop_phase_monotonic
      [where port = "''989''" and xs = "[OpListen True, OpShutdown, OpShutdown]"
         and l = srv0 and x = OpShutdown and ys = "[]"]
  have c: "stop_changes (NewTcpServer ''989'' :: unit tcpServer) [OpListen True, OpShutdown, OpShutdown]
             = (if stop (exec (NewTcpServer ''989'' :: unit tcpServer) [OpListen True, OpShutdown, OpShutdown]) = 0
                then 0 else 1)"
    using t by blast
  have d: "stop (apply_op srv0 OpShutdown) = 2" using t a by blast
  have e: "exec srv0 [OpShutdown] = apply_op srv0 OpShutdown" by (simp only: exec.simps)
  have f: "stop_changes (NewTcpServer ''989'' :: unit tcpServer) [OpListen True, OpShutdown, OpShutdown] = 1"
    unfolding c b by simp
  show ?thesis using a d f unfolding e by simp
qed

subsection \<open>The Sender's loop\<close>

text \<open>
  Claim C7. When \<^verbatim>\<open>ConsumeInput\<close> has taken an item from \<^verbatim>\<open>conn.input\<close> and finds
  \<open>stop\<close> nonzero, it writes nothing and goes on with the loop with the mutex, which it
  has just taken, still held: its next \<^verbatim>\<open>Lock\<close> and that of \<^verbatim>\<open>Shutdown\<close> block.
\<close>

theorem ConsumeInput_stopped_keeps_lock:
  "\<not> lock l \<Longrightarrow> stop l \<noteq> 0 \<Longrightarrow>
     ConsumeInput_item l c msg wr tr = Returned (l\<lparr>lock := True\<rparr>, c, tr)
     \<and> lock (l\<lparr>lock := True\<rparr>)
     \<and> ConsumeInput_item (l\<lparr>lock := True\<rparr>) c msg' wr' tr = Blocked
     \<and> Shutdown (l\<lparr>lock := True\<rparr>) = Blocked"
  by (simp add: ConsumeInput_item_def Shutdown_def)

theorem ConsumeInput_stopped_keeps_lock_witness:
  "\<not> lock (exec srv0 [OpShutdown]) \<and> stop (exec srv0 [OpShutdown]) \<noteq> 0
   \<and> ConsumeInput_item (exec srv0 [OpShutdown])
        \<lparr>conn = \<lparr>closeCalls = 1, written = []\<rparr>, id = 1, waitConn = False\<rparr> [104, 105] WriteOk []
      = Returned ((exec srv0 [OpShutdown])\<lparr>lock := True\<rparr>,
          \<lparr>conn = \<lparr>closeCalls = 1, written = []\<rparr>, id = 1, waitConn = False\<rparr>, [])"
proof -
  have a: "\<not> lock (exec srv0 [OpShutdown])" and b: "stop (exec srv0 [OpShutdown]) \<noteq> 0"
    by (simp_all add: srv0_eq Shutdown_def)
  show ?thesis using a b ConsumeInput_stopped_keeps_lock [OF a b] by simp
qed

subsection \<open>The callbacks of a new server\<close>

text \<open>
  Claim C10. On a server made by \<^verbatim>\<open>NewTcpServer\<close> both callback slots hold a function
  (not nil) that changes nothing; \<^verbatim>\<open>handelReceive\<close> calls the one and
  \<^verbatim>\<open>handelReadClose\<close>, on a connection whose \<^verbatim>\<open>waitConn\<close> is open, closes the channel
  and calls the other, and the world is as before.
\<close>

theorem new_server_callbacks_noop:
  "(\<exists>f g. closeCallback (NewTcpServer port :: 'w tcpServer) = Some f
        \<and> receiveCallback (NewTcpServer port :: 'w tcpServer) = Some g
        \<and> (\<forall>c a b w. f c a b w = w) \<and> (\<forall>c bt w. g c bt w = w))
   \<and> handelReceive (NewTcpServer port) c bt (w, tr) = (w, tr @ [EvReceiveCallback bt])
   \<and> handelReadClose (NewTcpServer port) (c\<lparr>waitConn := False\<rparr>) isServer isClient (w, tr)
       = Some (c\<lparr>waitConn := True\<rparr>, w, tr @ [EvCloseWaitConn, EvCloseCallback isServer isClient])"
  by (simp add: NewTcpServer_def handelReceive_def handelReadClose_def)

subsection \<open>The router\<close>

text \<open>
  Run alone, with a route for code 0 in the table, the callback returns; it prints the
  miss exactly when the action code has no route; and it invokes the handler of the
  route it took once, or, when decoding fails, prints the error and invokes none.
\<close>

lemma onReceive_alone:
  assumes "rt 0 = Some d"
    and "hv = (case rt (act msg) of Some h \<Rightarrow> h | None \<Rightarrow> d)"
  shows "fst (onReceive rt toStruct c msg v) = CbDone
     \<and> routed (snd (onReceive rt toStruct c msg v))
         = routed v
           @ (if rt (act msg) = None then [LogNotFound (act msg)] else [])
           @ (case Info hv of
                None \<Rightarrow> [Invoke (Handle hv) c msg None]
              | Some p \<Rightarrow>
                  (case snd (toStruct msg p) of
                     Some e \<Rightarrow> [LogDecodeErr e]
                   | None \<Rightarrow> [Invoke (Handle hv) c msg (fst (toStruct msg p))]))"
  using assms
  by (auto simp: onReceive_def callback_decode_def callback_test_def find_route_def
        split: option.splits)

lemmas router_eval = router0_def vars0_def conn1_def conn2_def msg_bad_def msg_good_def
  decode_ex_def routes_def router_step_def callback_decode_def callback_test_def
  find_route_def onReceive_def

text \<open>
  Claim C3, on the code. The decode error goes through \<^verbatim>\<open>err\<close> of \<^verbatim>\<open>main\<close>, which all
  runs of the callback share. Connection 1 has sent a message for code 100 that does not
  decode and connection 2 one that does. When both decode before either tests \<^verbatim>\<open>err\<close>,
  the run that decoded last decides for both: with the good decode last, the shutdown
  handler is invoked for the message that did not decode, with a nil request; with the
  failed decode last, the good message is dropped with the other's error printed and no
  handler is invoked for it. Each run on its own does what the claim says.
\<close>

theorem decode_error_shared_between_dispatches:
  "routed (vars (router_run routes decode_ex router0 [0, 1, 0, 1]))
     = [Invoke handleShutdown conn1 msg_bad None,
        Invoke handleShutdown conn2 msg_good (Some (ShutdownReq ''maintenance''))]
   \<and> routed (vars (router_run routes decode_ex router0 [1, 0, 1, 0]))
     = [LogDecodeErr ''unexpected end of input'', LogDecodeErr ''unexpected end of input'']
   \<and> calls (router_run routes decode_ex router0 [0, 1, 0, 1]) 0 = CbDone
   \<and> calls (router_run routes decode_ex router0 [0, 1, 0, 1]) 1 = CbDone
   \<and> fst (decode_ex msg_bad ShutdownReqProto) = None
   \<and> snd (decode_ex msg_bad ShutdownReqProto) = Some ''unexpected end of input''
   \<and> snd (decode_ex msg_good ShutdownReqProto) = None
   \<and> routed (snd (onReceive routes decode_ex conn1 msg_bad vars0))
     = [LogDecodeErr ''unexpected end of input'']
   \<and> routed (snd (onReceive routes decode_ex conn2 msg_good vars0))
     = [Invoke handleShutdown conn2 msg_good (Some (ShutdownReq ''maintenance''))]
   \<and> routed (vars (router_run routes decode_ex router0 [0, 0, 1, 1]))
     = [LogDecodeErr ''unexpected end of input'',
        Invoke handleShutdown conn2 msg_good (Some (ShutdownReq ''maintenance''))]"
  by (simp add: router_eval)

subsection \<open>The id counter\<close>

lemma alloc_step_inv:
  assumes "ids s = map (\<lambda>k. l0 + 1 + of_nat k) [0 ..< length (returned s)]"
    and "lastId (asrv s) = l0 + of_nat (length (returned s))"
  shows "ids (alloc_step s i) = map (\<lambda>k. l0 + 1 + of_nat k) [0 ..< length (returned (alloc_step s i))]
       \<and> lastId (asrv (alloc_step s i)) = l0 + of_nat (length (returned (alloc_step s i)))"
  using assms
  by (auto simp: alloc_step_def ids_def atomic_CompareAndSwapUint32_def atomic_LoadUint32_def Let_def
        split: caller.splits)

lemma alloc_run_inv:
  assumes "ids s = map (\<lambda>k. l0 + 1 + of_nat k) [0 ..< length (returned s)]"
    and "lastId (asrv s) = l0 + of_nat (length (returned s))"
  shows "ids (alloc_run s sched) = map (\<lambda>k. l0 + 1 + of_nat k) [0 ..< length (returned (alloc_run s sched))]
       \<and> lastId (asrv (alloc_run s sched)) = l0 + of_nat (length (returned (alloc_run s sched)))"
  using assms
proof (induction sched arbitrary: s)
  case Nil then show ?case by simp
next
  case (Cons i sched)
  from alloc_step_inv [OF Cons.prems, of i]
  show ?case by (simp add: Cons.IH)
qed

lemma length_ids: "length (ids s) = length (returned s)"
  by (simp add: ids_def)

lemma alloc_ids:
  "ids (alloc_run (alloc_init l) sched)
     = map (\<lambda>k. lastId l + 1 + of_nat k) [0 ..< length (ids (alloc_run (alloc_init l) sched))]"
proof -
  have "ids (alloc_init l) = map (\<lambda>k. lastId l + 1 + of_nat k) [0 ..< length (returned (alloc_init l))]"
    and "lastId (asrv (alloc_init l)) = lastId l + of_nat (length (returned (alloc_init l)))"
    by (simp_all add: alloc_init_def ids_def)
  from alloc_run_inv [OF this, of sched]
  have "ids (alloc_run (alloc_init l) sched)
     = map (\<lambda>k. lastId l + 1 + of_nat k) [0 ..< length (returned (alloc_run (alloc_init l) sched))]"
    by (rule conjunct1)
  then show ?thesis unfolding length_ids .
qed

lemma alloc_ids_nth:
  assumes "k < length (ids (alloc_run (alloc_init l) sched))"
  shows "ids (alloc_run (alloc_init l) sched) ! k = lastId l + 1 + of_nat k"
proof -
  have "ids (alloc_run (alloc_init l) sched) ! k
      = map (\<lambda>k. lastId l + 1 + of_nat k) [0 ..< length (ids (alloc_run (alloc_init l) sched))] ! k"
    using alloc_ids [of l sched] by simp
  also have "\<dots> = lastId l + 1 + of_nat k" using assms by simp
  finally show ?thesis .
qed

lemma u32_Suc_less:
  assumes "a < b" and "b < 2 ^ 32 - 1"
  shows "(1 + of_nat a :: u32) < 1 + of_nat b"
proof -
  have "(of_nat (Suc a) :: u32) < of_nat (Suc b)"
    using assms by (simp add: of_nat_word_less_iff take_bit_nat_eq_self del: of_nat_Suc)
  then show ?thesis by simp
qed

lemma alloc_two_steps:
  assumes "callers s i = AtLoad"
  shows "alloc_step (alloc_step s i) i
     = s\<lparr>asrv := (asrv s)\<lparr>lastId := lastId (asrv s) + 1\<rparr>,
          returned := returned s @ [(i, lastId (asrv s) + 1)]\<rparr>"
proof -
  have "(callers s)(i := AtLoad) = callers s" using assms by auto
  then show ?thesis using assms
    by (simp add: alloc_step_def atomic_CompareAndSwapUint32_def atomic_LoadUint32_def Let_def)
qed

lemma alloc_one_caller:
  "callers s i = AtLoad \<Longrightarrow>
     length (returned (alloc_run s (replicate (2 * n) i))) = length (returned s) + n"
proof (induction n arbitrary: s)
  case 0 then show ?case by simp
next
  case (Suc n)
  let ?s = "alloc_step (alloc_step s i) i"
  have c: "callers ?s i = AtLoad"
    using Suc.prems by (simp add: alloc_two_steps)
  have "alloc_run s (replicate (2 * Suc n) i) = alloc_run ?s (replicate (2 * n) i)"
    by simp
  then show ?case
    using Suc.IH [OF c] Suc.prems by (simp add: alloc_two_steps)
qed

lemma alloc_one_caller_init:
  "length (ids (alloc_run (alloc_init l) (replicate (2 * n) i))) = n"
  using alloc_one_caller [of "alloc_init l" i n]
  by (simp add: length_ids) (simp add: alloc_init_def)

text \<open>
  Claim C4 as stated fails: the counter is 32 bits wide and wraps. One caller that runs
  \<open>2\<^sup>3\<^sup>2 + 1\<close> calls on a new server gets the id 1 twice.
\<close>

theorem ids_reused_after_wrap:
  "\<not> (distinct (ids (alloc_run (alloc_init (NewTcpServer ''989'' :: unit tcpServer))
          (replicate (2 * (2 ^ 32 + 1)) 0)))
      \<and> sorted_wrt (<) (ids (alloc_run (alloc_init (NewTcpServer ''989'' :: unit tcpServer))
          (replicate (2 * (2 ^ 32 + 1)) 0))))"
proof -
  let ?xs = "ids (alloc_run (alloc_init (NewTcpServer ''989'' :: unit tcpServer))
          (replicate (2 * (2 ^ 32 + 1)) 0))"
  have len: "length ?xs = 2 ^ 32 + 1" by (rule alloc_one_caller_init)
  have z: "lastId (NewTcpServer ''989'' :: unit tcpServer) = 0" by (simp add: NewTcpServer_def)
  have "0 < length ?xs" unfolding len by simp
  then have a: "?xs ! 0 = 1" unfolding alloc_ids_nth [OF \<open>0 < length ?xs\<close>] z by simp
  have "2 ^ 32 < length ?xs" unfolding len by simp
  then have b: "?xs ! (2 ^ 32) = 1" unfolding alloc_ids_nth [OF \<open>2 ^ 32 < length ?xs\<close>] z by simp
  have "\<not> distinct ?xs"
    unfolding distinct_conv_nth
    using a b \<open>0 < length ?xs\<close> \<open>2 ^ 32 < length ?xs\<close>
    by (metis zero_neq_numeral power_eq_0_iff)
  then show ?thesis by blast
qed

text \<open>
  Claim C4, amended. Under every schedule of concurrent callers the ids returned are, in
  the order of return, the successors of the counter's first value, each one more than
  the one before, modulo \<open>2\<^sup>3\<^sup>2\<close>. On a server whose counter started at 0 they are
  strictly increasing and pairwise distinct as long as fewer than \<open>2\<^sup>3\<^sup>2\<close> ids have been
  returned.
\<close>

theorem ids_increasing_before_wrap:
  "ids (alloc_run (alloc_init l) sched)
     = map (\<lambda>k. lastId l + 1 + of_nat k) [0 ..< length (ids (alloc_run (alloc_init l) sched))]
   \<and> (lastId l = 0 \<and> length (ids (alloc_run (alloc_init l) sched)) < 2 ^ 32 \<longrightarrow>
        sorted_wrt (<) (ids (alloc_run (alloc_init l) sched))
        \<and> distinct (ids (alloc_run (alloc_init l) sched)))"
proof (intro conjI impI)
  show "ids (alloc_run (alloc_init l) sched)
     = map (\<lambda>k. lastId l + 1 + of_nat k) [0 ..< length (ids (alloc_run (alloc_init l) sched))]"
    by (rule alloc_ids)
next
  let ?xs = "ids (alloc_run (alloc_init l) sched)"
  assume h: "lastId l = 0 \<and> length ?xs < 2 ^ 32"
  have lt: "?xs ! i < ?xs ! j" if "i < j" "j < length ?xs" for i j
  proof -
    have "i < length ?xs" using that by simp
    then show ?thesis
      using that h u32_Suc_less [of i j]
      by (simp add: alloc_ids_nth)
  qed
  then show s: "sorted_wrt (<) ?xs" by (simp add: sorted_wrt_iff_nth_less)
  show "distinct ?xs"
    unfolding distinct_conv_nth
  proof (intro allI impI)
    fix i j assume "i < length ?xs" "j < length ?xs" "i \<noteq> j"
    then consider "i < j" | "j < i" by linarith
    then show "?xs ! i \<noteq> ?xs ! j"
    proof cases
      case 1 then show ?thesis using lt [of i j] \<open>j < length ?xs\<close> by simp
    next
      case 2 then show ?thesis using lt [of j i] \<open>i < length ?xs\<close> by simp
    qed
  qed
qed

theorem ids_increasing_before_wrap_witness:
  "lastId (NewTcpServer ''989'' :: unit tcpServer) = 0
   \<and> length (ids (alloc_run (alloc_init (NewTcpServer ''989'' :: unit tcpServer)) [0, 1, 0, 1, 1, 1]))
       < 2 ^ 32
   \<and> ids (alloc_run (alloc_init (NewTcpServer ''989'' :: unit tcpServer)) [0, 1, 0, 1, 1, 1]) = [1, 2]
   \<and> sorted_wrt (<) (ids (alloc_run (alloc_init (NewTcpServer ''989'' :: unit tcpServer)) [0, 1, 0, 1, 1, 1]))
   \<and> distinct (ids (alloc_run (alloc_init (NewTcpServer ''989'' :: unit tcpServer)) [0, 1, 0, 1, 1, 1]))"
proof -
  have e: "ids (alloc_run (alloc_init (NewTcpServer ''989'' :: unit tcpServer)) [0, 1, 0, 1, 1, 1]) = [1, 2]"
    by (simp add: alloc_init_def alloc_step_def ids_def NewTcpServer_def Let_def
          atomic_CompareAndSwapUint32_def atomic_LoadUint32_def)
  have z: "lastId (NewTcpServer ''989'' :: unit tcpServer) = 0" by (simp add: NewTcpServer_def)
  have n: "length (ids (alloc_run (alloc_init (NewTcpServer ''989'' :: unit tcpServer)) [0, 1, 0, 1, 1, 1]))
       < 2 ^ 32"
    unfolding e by simp
  from ids_increasing_before_wrap [of "NewTcpServer ''989'' :: unit tcpServer" "[0, 1, 0, 1, 1, 1]"] z n
  have "sorted_wrt (<) (ids (alloc_run (alloc_init (NewTcpServer ''989'' :: unit tcpServer)) [0, 1, 0, 1, 1, 1]))
   \<and> distinct (ids (alloc_run (alloc_init (NewTcpServer ''989'' :: unit tcpServer)) [0, 1, 0, 1, 1, 1]))"
    by blast
  then show ?thesis using e z n by blast
qed

subsection \<open>Steps of a connection's tasks\<close>

lemma closes_append: "closes (xs @ ys) = closes xs + closes ys"
  by (simp add: closes_def)

lemma close_callbacks_append: "close_callbacks (xs @ ys) = close_callbacks xs + close_callbacks ys"
  by (simp add: close_callbacks_def)

lemma sends_done_append: "sends_done (xs @ ys) = sends_done xs @ sends_done ys"
  by (simp add: sends_done_def)

lemma delivered_append: "delivered (xs @ ys) = delivered xs @ delivered ys"
  by (induction xs rule: delivered.induct) simp_all

lemma handelReceive_trace:
  "snd (handelReceive l c bt (w, tr)) = tr @ receive_events l bt"
  by (simp add: handelReceive_def receive_events_def split: option.splits)

lemma closes_receive_events [simp]: "closes (receive_events l bt) = 0"
  by (simp add: closes_def receive_events_def split: option.splits)

lemma close_callbacks_receive_events [simp]: "close_callbacks (receive_events l bt) = 0"
  by (simp add: close_callbacks_def receive_events_def split: option.splits)

lemma sends_done_receive_events [simp]: "sends_done (receive_events l bt) = []"
  by (simp add: sends_done_def receive_events_def split: option.splits)

lemma Shutdown_callbacks:
  "closeCallback (after l (Shutdown l)) = closeCallback l
   \<and> receiveCallback (after l (Shutdown l)) = receiveCallback l"
  by (simp add: Shutdown_def Let_def split: option.splits)


lemma step_ReaderDrain: "step s ReaderDrain = None"
  by (simp add: step_def output_senders_def)

lemma step_ReaderRead:
  assumes "step s (ReaderRead r) = Some s'"
  shows "reader s = RSelect \<and> \<not> waitConn (cn s) \<and> s' = readerRead s r"
  using assms by (simp add: step_def split: if_splits)

lemma readerRead_EOF:
  "\<not> waitConn (cn s) \<Longrightarrow>
     readerRead s ReadEOF =
       s\<lparr>cn := (cn s)\<lparr>waitConn := True\<rparr>,
         world := close_world (srv s) (cn s) False True (world s),
         trace := trace s @ close_events (srv s) False True, reader := RExited\<rparr>"
  by (simp add: readerRead_def handelReadClose_def Let_def close_world_def close_events_def
        split: option.splits)

lemma readerRead_OpError:
  "\<not> waitConn (cn s) \<Longrightarrow>
     readerRead s ReadOpError =
       s\<lparr>cn := (cn s)\<lparr>waitConn := True\<rparr>,
         world := close_world (srv s) (cn s) True False (world s),
         trace := trace s @ close_events (srv s) True False, reader := RExited\<rparr>"
  by (simp add: readerRead_def handelReadClose_def Let_def close_world_def close_events_def
        split: option.splits)

lemma step_DispRecv:
  assumes "step s DispRecv = Some s'"
  shows "\<exists>bt. reader s = RSend bt \<and> dispatcher s = DSelect
            \<and> s' = s\<lparr>reader := RSelect, dispatcher := DHandle bt\<rparr>"
  using assms
  by (cases "reader s") (simp_all add: step_def output_senders_def split: if_splits)

lemma step_DispHandle:
  assumes "step s DispHandle = Some s'"
  shows "\<exists>bt. dispatcher s = DHandle bt
           \<and> s' = s\<lparr>printed := printed s @ [bt],
                    world := fst (handelReceive (srv s) (cn s) bt (world s, trace s)),
                    trace := trace s @ receive_events (srv s) bt,
                    dispatcher := DSelect\<rparr>"
  using assms
  by (cases "dispatcher s") (simp_all add: step_def Let_def handelReceive_trace split: if_splits)

lemma step_SenderLock:
  assumes "step s (SenderLock wr) = Some s'"
  shows "\<exists>msg. sender s = SLock msg \<and> \<not> lock (srv s)
           \<and> s' = (if stop (srv s) \<noteq> 0
                   then s\<lparr>srv := (srv s)\<lparr>lock := True\<rparr>, cn := cn s, trace := trace s,
                          sender := SSelect\<rparr>
                   else if wr = WriteErr
                   then s\<lparr>srv := (srv s)\<lparr>lock := True\<rparr>, cn := cn s,
                          trace := trace s, sender := SSelect\<rparr>
                   else s\<lparr>srv := (srv s)\<lparr>lock := False\<rparr>,
                          cn := (cn s)\<lparr>conn := (conn (cn s))\<lparr>written := written (conn (cn s)) @ [msg]\<rparr>\<rparr>,
                          trace := trace s @ [EvWrite msg, EvLogPrint msg], sender := SSelect\<rparr>)"
  using assms
  by (cases "sender s"; cases wr)
     (simp_all add: step_def ConsumeInput_item_def log_Err_def log_Print_def split: if_splits)

lemma step_CallShutdown:
  assumes "step s CallShutdown = Some s'"
  shows "\<not> lock (srv s)
     \<and> s' = s\<lparr>srv := after (srv s) (Shutdown (srv s)),
              crashed := (stop (srv s) = 0 \<and> listener (srv s) = None)\<rparr>"
  using assms
  by (cases "listener (srv s)") (auto simp add: step_def Shutdown_def Let_def split: if_splits)

text \<open>Every step, with the state it leads to.\<close>

lemma step_cases [consumes 1, case_names ReaderQuit ReadOk ReadEOF ReadOpError ReadOther
    DispQuit DispRecv DispHandle SenderQuit SenderRecv SenderStopped SenderWriteErr SenderWrite
    CallSend CallShutdown]:
  assumes "step s a = Some s'"
  obtains
    "a = ReaderQuit" "reader s = RSelect" "waitConn (cn s)" "s' = s\<lparr>reader := RExited\<rparr>"
  | bt where "a = ReaderRead (ReadOk bt)" "reader s = RSelect" "\<not> waitConn (cn s)"
      "s' = s\<lparr>reader := RSend bt\<rparr>"
  | "a = ReaderRead ReadEOF" "reader s = RSelect" "\<not> waitConn (cn s)"
      "s' = s\<lparr>cn := (cn s)\<lparr>waitConn := True\<rparr>,
         world := close_world (srv s) (cn s) False True (world s),
         trace := trace s @ close_events (srv s) False True, reader := RExited\<rparr>"
  | "a = ReaderRead ReadOpError" "reader s = RSelect" "\<not> waitConn (cn s)"
      "s' = s\<lparr>cn := (cn s)\<lparr>waitConn := True\<rparr>,
         world := close_world (srv s) (cn s) True False (world s),
         trace := trace s @ close_events (srv s) True False, reader := RExited\<rparr>"
  | "a = ReaderRead ReadOtherError" "reader s = RSelect" "\<not> waitConn (cn s)"
      "s' = s\<lparr>reader := RExited\<rparr>"
  | "a = DispQuit" "dispatcher s = DSelect" "waitConn (cn s)" "s' = s\<lparr>dispatcher := DExited\<rparr>"
  | bt where "a = DispRecv" "dispatcher s = DSelect" "reader s = RSend bt"
      "s' = s\<lparr>reader := RSelect, dispatcher := DHandle bt\<rparr>"
  | bt where "a = DispHandle" "dispatcher s = DHandle bt"
      "s' = s\<lparr>printed := printed s @ [bt],
               world := fst (handelReceive (srv s) (cn s) bt (world s, trace s)),
               trace := trace s @ receive_events (srv s) bt, dispatcher := DSelect\<rparr>"
  | "a = SenderQuit" "sender s = SSelect" "waitConn (cn s)" "s' = s\<lparr>sender := SExited\<rparr>"
  | i where "a = SenderRecv i" "sender s = SSelect" "i < length (sending s)"
      "s' = s\<lparr>sending := take i (sending s) @ drop (Suc i) (sending s),
               trace := trace s @ [EvSendDone (sending s ! i)],
               sender := SLock (sending s ! i)\<rparr>"
  | msg wr where "a = SenderLock wr" "sender s = SLock msg" "\<not> lock (srv s)" "stop (srv s) \<noteq> 0"
      "s' = s\<lparr>srv := (srv s)\<lparr>lock := True\<rparr>, sender := SSelect\<rparr>"
  | msg where "a = SenderLock WriteErr" "sender s = SLock msg" "\<not> lock (srv s)" "stop (srv s) = 0"
      "s' = s\<lparr>srv := (srv s)\<lparr>lock := True\<rparr>, sender := SSelect\<rparr>"
  | msg where "a = SenderLock WriteOk" "sender s = SLock msg" "\<not> lock (srv s)" "stop (srv s) = 0"
      "s' = s\<lparr>srv := (srv s)\<lparr>lock := False\<rparr>,
               cn := (cn s)\<lparr>conn := (conn (cn s))\<lparr>written := written (conn (cn s)) @ [msg]\<rparr>\<rparr>,
               trace := trace s @ [EvWrite msg, EvLogPrint msg], sender := SSelect\<rparr>"
  | v where "a = CallSend v" "s' = s\<lparr>sending := sending s @ [v]\<rparr>"
  | "a = CallShutdown" "\<not> lock (srv s)"
      "s' = s\<lparr>srv := after (srv s) (Shutdown (srv s)),
               crashed := (stop (srv s) = 0 \<and> listener (srv s) = None)\<rparr>"
proof (cases a)
  case ReaderQuit
  with assms that(1) show ?thesis by (simp add: step_def split: if_splits)
next
  case ReaderDrain
  with assms show ?thesis by (simp add: step_ReaderDrain)
next
  case (ReaderRead r)
  with assms have h: "reader s = RSelect" "\<not> waitConn (cn s)" "s' = readerRead s r"
    using step_ReaderRead by blast+
  show ?thesis
  proof (cases r)
    case (ReadOk bt)
    with h ReaderRead that(2) show ?thesis by (simp add: readerRead_def)
  next
    case ReadEOF
    with h ReaderRead that(3) show ?thesis by (simp add: readerRead_EOF)
  next
    case ReadOpError
    with h ReaderRead that(4) show ?thesis by (simp add: readerRead_OpError)
  next
    case ReadOtherError
    with h ReaderRead that(5) show ?thesis by (simp add: readerRead_def log_Err_def)
  qed
next
  case DispQuit
  with assms that(6) show ?thesis by (simp add: step_def split: if_splits)
next
  case DispRecv
  with assms step_DispRecv obtain bt where "reader s = RSend bt" "dispatcher s = DSelect"
      "s' = s\<lparr>reader := RSelect, dispatcher := DHandle bt\<rparr>" by blast
  with DispRecv that(7) show ?thesis by blast
next
  case DispHandle
  with assms step_DispHandle obtain bt where "dispatcher s = DHandle bt"
      "s' = s\<lparr>printed := printed s @ [bt],
               world := fst (handelReceive (srv s) (cn s) bt (world s, trace s)),
               trace := trace s @ receive_events (srv s) bt, dispatcher := DSelect\<rparr>" by blast
  with DispHandle that(8) show ?thesis by blast
next
  case SenderQuit
  with assms that(9) show ?thesis by (simp add: step_def split: if_splits)
next
  case (SenderRecv i)
  with assms that(10) show ?thesis by (simp add: step_def split: if_splits)
next
  case (SenderLock wr)
  with assms step_SenderLock [of s wr s'] obtain msg where m: "sender s = SLock msg" "\<not> lock (srv s)"
    and e: "s' = (if stop (srv s) \<noteq> 0
                   then s\<lparr>srv := (srv s)\<lparr>lock := True\<rparr>, cn := cn s, trace := trace s,
                          sender := SSelect\<rparr>
                   else if wr = WriteErr
                   then s\<lparr>srv := (srv s)\<lparr>lock := True\<rparr>, cn := cn s,
                          trace := trace s, sender := SSelect\<rparr>
                   else s\<lparr>srv := (srv s)\<lparr>lock := False\<rparr>,
                          cn := (cn s)\<lparr>conn := (conn (cn s))\<lparr>written := written (conn (cn s)) @ [msg]\<rparr>\<rparr>,
                          trace := trace s @ [EvWrite msg, EvLogPrint msg], sender := SSelect\<rparr>)"
    by blast
  show ?thesis
  proof (cases "stop (srv s) \<noteq> 0")
    case True
    with e have "s' = s\<lparr>srv := (srv s)\<lparr>lock := True\<rparr>, sender := SSelect\<rparr>" by simp
    with True m SenderLock that(11) show ?thesis by blast
  next
    case False
    show ?thesis
    proof (cases wr)
      case WriteErr
      with False e have "s' = s\<lparr>srv := (srv s)\<lparr>lock := True\<rparr>, sender := SSelect\<rparr>" by simp
      with False m SenderLock WriteErr that(12) show ?thesis by blast
    next
      case WriteOk
      with False e have "s' = s\<lparr>srv := (srv s)\<lparr>lock := False\<rparr>,
               cn := (cn s)\<lparr>conn := (conn (cn s))\<lparr>written := written (conn (cn s)) @ [msg]\<rparr>\<rparr>,
               trace := trace s @ [EvWrite msg, EvLogPrint msg], sender := SSelect\<rparr>" by simp
      with False m SenderLock WriteOk that(13) show ?thesis by blast
    qed
  qed
next
  case (CallSend v)
  with assms that(14) show ?thesis by (simp add: step_def split: if_splits)
next
  case CallShutdown
  with assms step_CallShutdown [of s s'] that(15) show ?thesis by blast
qed


lemma drains_append: "drains (xs @ ys) = drains xs @ drains ys"
  by (simp add: drains_def)

lemma close_panics_append: "close_panics (xs @ ys) = close_panics xs + close_panics ys"
  by (simp add: close_panics_def)

lemma closes_Cons [simp]:
  "closes [] = 0" "closes (e # es) = (if e = EvCloseWaitConn then 1 else 0) + closes es"
  by (simp_all add: closes_def)

lemma close_callbacks_Cons [simp]:
  "close_callbacks [] = 0"
  "close_callbacks (e # es) = (if is_close_callback e then 1 else 0) + close_callbacks es"
  by (simp_all add: close_callbacks_def)

lemma close_panics_Cons [simp]:
  "close_panics [] = 0"
  "close_panics (e # es) = (if e = EvPanicCloseOfClosed then 1 else 0) + close_panics es"
  by (simp_all add: close_panics_def)

lemma sends_done_Cons [simp]:
  "sends_done [] = []" "sends_done (e # es) = (if is_send_done e then [e] else []) @ sends_done es"
  by (simp_all add: sends_done_def)

lemma drains_Cons [simp]:
  "drains [] = []" "drains (e # es) = (if is_reader_drain e then [e] else []) @ drains es"
  by (simp_all add: drains_def)

lemma close_panics_close_events [simp]: "close_panics (close_events l a b) = 0"
  by (simp add: close_panics_def close_events_def split: option.splits)

lemma close_panics_receive_events [simp]: "close_panics (receive_events l bt) = 0"
  by (simp add: close_panics_def receive_events_def split: option.splits)

lemma closes_close_events [simp]: "closes (close_events l a b) = 1"
  by (simp add: closes_def close_events_def split: option.splits)

lemma close_callbacks_close_events [simp]:
  "close_callbacks (close_events l a b) = (if closeCallback l = None then 0 else 1)"
  by (simp add: close_callbacks_def close_events_def split: option.splits)

lemma sends_done_close_events [simp]: "sends_done (close_events l a b) = []"
  by (simp add: sends_done_def close_events_def split: option.splits)

lemma drains_close_events [simp]: "drains (close_events l a b) = []"
  by (simp add: drains_def close_events_def split: option.splits)

lemma delivered_close_events [simp]: "delivered (close_events l a b) = []"
  by (simp add: close_events_def split: option.splits)

lemma drains_receive_events [simp]: "drains (receive_events l bt) = []"
  by (simp add: drains_def receive_events_def split: option.splits)

lemma delivered_receive_events [simp]:
  "delivered (receive_events l bt) = (if receiveCallback l = None then [] else [bt])"
  by (simp add: receive_events_def split: option.splits)

lemmas trace_appends = closes_append close_callbacks_append close_panics_append
  sends_done_append drains_append delivered_append

lemma step_callbacks:
  assumes "step s a = Some s'"
  shows "closeCallback (srv s') = closeCallback (srv s)
       \<and> receiveCallback (srv s') = receiveCallback (srv s)"
  using assms by (cases rule: step_cases) (simp_all add: Shutdown_callbacks)

lemma step_close_inv:
  assumes "step s a = Some s'"
    and "closes (trace s) = (if waitConn (cn s) then 1 else 0)"
    and "close_callbacks (trace s) = (if waitConn (cn s) \<and> closeCallback (srv s) \<noteq> None then 1 else 0)"
    and "waitConn (cn s) \<longrightarrow> reader s = RExited"
    and "dispatcher s = DExited \<or> sender s = SExited \<longrightarrow> waitConn (cn s)"
  shows "closes (trace s') = (if waitConn (cn s') then 1 else 0)
       \<and> close_callbacks (trace s') = (if waitConn (cn s') \<and> closeCallback (srv s') \<noteq> None then 1 else 0)
       \<and> (waitConn (cn s') \<longrightarrow> reader s' = RExited)
       \<and> (dispatcher s' = DExited \<or> sender s' = SExited \<longrightarrow> waitConn (cn s'))"
  using assms(1)
  by (cases rule: step_cases) (use assms(2-) in \<open>simp_all add: trace_appends Shutdown_callbacks\<close>)

lemma step_waitConn:
  assumes "step s a = Some s'"
  shows "waitConn (cn s') \<longleftrightarrow>
           waitConn (cn s) \<or> a = ReaderRead ReadEOF \<or> a = ReaderRead ReadOpError"
  using assms by (cases rule: step_cases) simp_all

lemma step_frames:
  assumes "step s a = Some s'"
  shows "printed s' @ in_flight s' = printed s @ in_flight s @ frames_read [a]"
  using assms
  by (cases rule: step_cases) (simp_all add: in_flight_def output_senders_def)

lemma step_drains:
  assumes "step s a = Some s'"
  shows "drains (trace s') = drains (trace s)"
  using assms by (cases rule: step_cases) (simp_all add: trace_appends)

lemma step_delivered:
  assumes "step s a = Some s'" and "receiveCallback (srv s) \<noteq> None"
    and "delivered (trace s) = printed s"
  shows "delivered (trace s') = printed s'"
  using assms(1)
  by (cases rule: step_cases) (use assms(2-) in \<open>simp_all add: trace_appends\<close>)

lemma step_reader_exited:
  assumes "step s a = Some s'" and "reader s = RExited"
  shows "reader s' = RExited \<and> closes (trace s') = closes (trace s)
       \<and> close_callbacks (trace s') = close_callbacks (trace s)"
  using assms(1)
  by (cases rule: step_cases) (use assms(2-) in \<open>simp_all add: trace_appends\<close>)

lemma step_sender_exited:
  assumes "step s a = Some s'" and "sender s = SExited"
  shows "sender s' = SExited \<and> sends_done (trace s') = sends_done (trace s)
       \<and> (\<exists>ys. sending s' = sending s @ ys)"
  using assms(1)
  by (cases rule: step_cases) (use assms(2-) in \<open>simp_all add: trace_appends\<close>)


lemma step_close_inv':
  assumes "step s a = Some s'" and "close_inv s"
  shows "close_inv s'"
proof -
  have c: "closes (trace s) = (if waitConn (cn s) then 1 else 0)"
    and d: "close_callbacks (trace s) = (if waitConn (cn s) \<and> closeCallback (srv s) \<noteq> None then 1 else 0)"
    using assms(2) by (simp_all add: close_inv_def)
  have e: "waitConn (cn s) \<longrightarrow> reader s = RExited"
    using assms(2) by (cases "waitConn (cn s)") (simp_all add: close_inv_def)
  have f: "dispatcher s = DExited \<or> sender s = SExited \<longrightarrow> waitConn (cn s)"
    using assms(2) by (cases "waitConn (cn s)") (simp_all add: close_inv_def)
  from step_close_inv [OF assms(1) c d e f]
  show ?thesis by (cases "waitConn (cn s')") (simp_all add: close_inv_def)
qed

lemma close_inv_init: "close_inv (sys_init l nc i w)"
  by (simp add: close_inv_def sys_init_def)

lemma run_Cons_Some:
  "run s (a # as) = Some s' \<longleftrightarrow> (\<exists>s1. step s a = Some s1 \<and> run s1 as = Some s')"
  by (simp split: option.splits)

lemma run_append_Some:
  "run s (xs @ ys) = Some s' \<longleftrightarrow> (\<exists>s1. run s xs = Some s1 \<and> run s1 ys = Some s')"
  by (induction xs arbitrary: s) (simp_all split: option.splits)

lemma run_close_inv: "run s acts = Some s' \<Longrightarrow> close_inv s \<Longrightarrow> close_inv s'"
proof (induction acts arbitrary: s)
  case Nil then show ?case by simp
next
  case (Cons a acts)
  from Cons.prems(1) obtain s1 where "step s a = Some s1" "run s1 acts = Some s'"
    unfolding run_Cons_Some by blast
  with Cons show ?case using step_close_inv' by blast
qed

lemma run_callbacks:
  "run s acts = Some s' \<Longrightarrow>
     closeCallback (srv s') = closeCallback (srv s)
     \<and> receiveCallback (srv s') = receiveCallback (srv s)"
proof (induction acts arbitrary: s)
  case Nil then show ?case by simp
next
  case (Cons a acts)
  from Cons.prems(1) obtain s1 where "step s a = Some s1" "run s1 acts = Some s'"
    unfolding run_Cons_Some by blast
  with Cons.IH [of s1] step_callbacks [of s a s1] show ?case by simp
qed

lemma run_waitConn:
  "run s acts = Some s' \<Longrightarrow>
     waitConn (cn s') \<longleftrightarrow>
       waitConn (cn s) \<or> ReaderRead ReadEOF \<in> set acts \<or> ReaderRead ReadOpError \<in> set acts"
proof (induction acts arbitrary: s)
  case Nil then show ?case by simp
next
  case (Cons a acts)
  from Cons.prems(1) obtain s1 where "step s a = Some s1" "run s1 acts = Some s'"
    unfolding run_Cons_Some by blast
  with Cons.IH [of s1] step_waitConn [of s a s1] show ?case by auto
qed

lemma frames_read_Cons: "frames_read (a # as) = frames_read [a] @ frames_read as"
proof (cases a)
  case (ReaderRead r)
  then show ?thesis by (cases r) simp_all
qed simp_all

lemma run_frames:
  "run s acts = Some s' \<Longrightarrow>
     printed s' @ in_flight s' = printed s @ in_flight s @ frames_read acts"
proof (induction acts arbitrary: s)
  case Nil then show ?case by simp
next
  case (Cons a acts)
  from Cons.prems(1) obtain s1 where "step s a = Some s1" "run s1 acts = Some s'"
    unfolding run_Cons_Some by blast
  with Cons.IH [of s1] step_frames [of s a s1] frames_read_Cons [of a acts]
  show ?case by simp
qed

lemma run_drains: "run s acts = Some s' \<Longrightarrow> drains (trace s') = drains (trace s)"
proof (induction acts arbitrary: s)
  case Nil then show ?case by simp
next
  case (Cons a acts)
  from Cons.prems(1) obtain s1 where "step s a = Some s1" "run s1 acts = Some s'"
    unfolding run_Cons_Some by blast
  with Cons.IH [of s1] step_drains [of s a s1] show ?case by simp
qed

lemma run_delivered:
  "run s acts = Some s' \<Longrightarrow> receiveCallback (srv s) \<noteq> None \<Longrightarrow>
     delivered (trace s) = printed s \<Longrightarrow> delivered (trace s') = printed s'"
proof (induction acts arbitrary: s)
  case Nil then show ?case by simp
next
  case (Cons a acts)
  from Cons.prems(1) obtain s1 where s1: "step s a = Some s1" "run s1 acts = Some s'"
    unfolding run_Cons_Some by blast
  have "receiveCallback (srv s1) \<noteq> None" using step_callbacks [OF s1(1)] Cons.prems(2) by simp
  moreover have "delivered (trace s1) = printed s1"
    using step_delivered [OF s1(1)] Cons.prems by simp
  ultimately show ?case using Cons.IH [OF s1(2)] by simp
qed

lemma run_reader_exited:
  "run s acts = Some s' \<Longrightarrow> reader s = RExited \<Longrightarrow>
     reader s' = RExited \<and> closes (trace s') = closes (trace s)
     \<and> close_callbacks (trace s') = close_callbacks (trace s)"
proof (induction acts arbitrary: s)
  case Nil then show ?case by simp
next
  case (Cons a acts)
  from Cons.prems(1) obtain s1 where s1: "step s a = Some s1" "run s1 acts = Some s'"
    unfolding run_Cons_Some by blast
  from step_reader_exited [OF s1(1) Cons.prems(2)] Cons.IH [OF s1(2)]
  show ?case by simp
qed

lemma run_sender_exited:
  "run s acts = Some s' \<Longrightarrow> sender s = SExited \<Longrightarrow>
     sender s' = SExited \<and> sends_done (trace s') = sends_done (trace s)
     \<and> (\<exists>ys. sending s' = sending s @ ys)"
proof (induction acts arbitrary: s)
  case Nil then show ?case by simp
next
  case (Cons a acts)
  from Cons.prems(1) obtain s1 where s1: "step s a = Some s1" "run s1 acts = Some s'"
    unfolding run_Cons_Some by blast
  from step_sender_exited [OF s1(1) Cons.prems(2)]
  obtain ys where a: "sender s1 = SExited" "sends_done (trace s1) = sends_done (trace s)"
    "sending s1 = sending s @ ys" by blast
  from Cons.IH [OF s1(2) a(1)]
  obtain zs where b: "sender s' = SExited" "sends_done (trace s') = sends_done (trace s1)"
    "sending s' = sending s1 @ zs" by blast
  from a b show ?case by simp
qed


lemmas run_eval = sys0_def sys_init_def nc0_def NewTcpServer_def step_def readerRead_def
  output_senders_def handelReadClose_def handelReceive_def ConsumeInput_item_def Shutdown_def Let_def
  log_Err_def log_Print_def

lemma flush_run:
  assumes "\<not> crashed s" and "close_inv s"
  shows "\<exists>s'. run s (flush s) = Some s' \<and> in_flight s' = [] \<and> printed s' = printed s @ in_flight s"
proof -
  have x: "dispatcher s \<noteq> DExited" if "reader s = RSend bt" for bt
    using assms(2) that by (cases "waitConn (cn s)") (simp_all add: close_inv_def)
  show ?thesis
  proof (cases "reader s")
    case RSelect
    then show ?thesis using assms(1)
      by (cases "dispatcher s")
         (simp_all add: flush_def in_flight_def output_senders_def step_def Let_def)
  next
    case (RSend bt)
    then show ?thesis using assms(1) x [of bt]
      by (cases "dispatcher s")
         (simp_all add: flush_def in_flight_def output_senders_def step_def Let_def)
  next
    case RExited
    then show ?thesis using assms(1)
      by (cases "dispatcher s")
         (simp_all add: flush_def in_flight_def output_senders_def step_def Let_def)
  qed
qed

lemma step_close_panics:
  assumes "step s a = Some s'"
  shows "close_panics (trace s') = close_panics (trace s)"
  using assms by (cases rule: step_cases) (simp_all add: trace_appends)

lemma run_close_panics:
  "run s acts = Some s' \<Longrightarrow> close_panics (trace s') = close_panics (trace s)"
proof (induction acts arbitrary: s)
  case Nil then show ?case by simp
next
  case (Cons a acts)
  from Cons.prems(1) obtain s1 where "step s a = Some s1" "run s1 acts = Some s'"
    unfolding run_Cons_Some by blast
  with Cons.IH [of s1] step_close_panics [of s a s1] show ?case by simp
qed

subsection \<open>The close signal and the close callback\<close>

text \<open>
  Claim C1 as stated fails. When the first read of a new connection ends in an error that
  is neither \<^verbatim>\<open>io.EOF\<close> nor a \<^verbatim>\<open>*net.OpError\<close>, the Reader returns, and whatever the
  tasks do afterwards, the channel is never closed and the close callback never runs.
\<close>

theorem close_callback_not_invoked:
  "run sys0 [ReaderRead ReadOtherError] \<noteq> None
   \<and> \<not> (\<exists>acts s. run sys0 (ReaderRead ReadOtherError # acts) = Some s
            \<and> (reader s \<noteq> RExited \<or> closes (trace s) \<noteq> 0 \<or> close_callbacks (trace s) \<noteq> 0))"
proof
  show "run sys0 [ReaderRead ReadOtherError] \<noteq> None"
    by (simp add: run_eval)
  have h: "reader s = RExited \<and> closes (trace s) = 0 \<and> close_callbacks (trace s) = 0"
    if "run sys0 (ReaderRead ReadOtherError # acts) = Some s" for acts s
  proof -
    from that obtain s1 where a: "step sys0 (ReaderRead ReadOtherError) = Some s1"
      and b: "run s1 acts = Some s"
      unfolding run_Cons_Some by blast
    from a have "reader s1 = RExited \<and> trace s1 = []"
      by (auto simp: run_eval)
    with run_reader_exited [OF b] show ?thesis by simp
  qed
  show "\<not> (\<exists>acts s. run sys0 (ReaderRead ReadOtherError # acts) = Some s
            \<and> (reader s \<noteq> RExited \<or> closes (trace s) \<noteq> 0 \<or> close_callbacks (trace s) \<noteq> 0))"
  proof
    assume "\<exists>acts s. run sys0 (ReaderRead ReadOtherError # acts) = Some s
            \<and> (reader s \<noteq> RExited \<or> closes (trace s) \<noteq> 0 \<or> close_callbacks (trace s) \<noteq> 0)"
    then obtain acts s where r: "run sys0 (ReaderRead ReadOtherError # acts) = Some s"
      and q: "reader s \<noteq> RExited \<or> closes (trace s) \<noteq> 0 \<or> close_callbacks (trace s) \<noteq> 0"
      by blast
    from h [OF r] q show False by simp
  qed
qed

text \<open>
  Claim C1, amended. In every run of a connection's tasks \<^verbatim>\<open>close(conn.waitConn)\<close> is
  executed at most once: it is never run on the channel when it is closed already (which
  would panic), it has closed the channel once when a read of the Reader has ended in
  \<^verbatim>\<open>io.EOF\<close> or a \<^verbatim>\<open>*net.OpError\<close>, and it has not run otherwise. Once the channel is
  closed the Reader has returned and no read is taken any more. The close callback has
  run once when the channel is closed and the slot is not nil, and has not run
  otherwise. Only the Reader fires either.
\<close>

theorem close_at_most_once:
  assumes "run (sys_init l nc i w) acts = Some s"
  shows "closes (trace s) + close_panics (trace s) \<le> 1 \<and> close_callbacks (trace s) \<le> 1
     \<and> close_panics (trace s) = 0
     \<and> (waitConn (cn s) \<longrightarrow> reader s = RExited \<and> step s (ReaderRead r) = None)
     \<and> closes (trace s)
         = (if ReaderRead ReadEOF \<in> set acts \<or> ReaderRead ReadOpError \<in> set acts then 1 else 0)
     \<and> close_callbacks (trace s)
         = (if (ReaderRead ReadEOF \<in> set acts \<or> ReaderRead ReadOpError \<in> set acts)
               \<and> closeCallback l \<noteq> None then 1 else 0)"
proof -
  have i: "close_inv s" using run_close_inv [OF assms close_inv_init] .
  have c: "closeCallback (srv s) = closeCallback l"
    using run_callbacks [OF assms] by (simp add: sys_init_def)
  have w: "waitConn (cn s) \<longleftrightarrow>
      ReaderRead ReadEOF \<in> set acts \<or> ReaderRead ReadOpError \<in> set acts"
    using run_waitConn [OF assms] by (simp add: sys_init_def)
  have p: "close_panics (trace s) = 0"
    using run_close_panics [OF assms] by (simp add: sys_init_def)
  have e: "reader s = RExited \<and> step s (ReaderRead r) = None" if "waitConn (cn s)"
    using i that by (simp add: close_inv_def step_def)
  from i have "closes (trace s) = (if waitConn (cn s) then 1 else 0)"
    and "close_callbacks (trace s)
          = (if waitConn (cn s) \<and> closeCallback (srv s) \<noteq> None then 1 else 0)"
    by (simp_all add: close_inv_def)
  then show ?thesis using p e unfolding c w by simp
qed

theorem close_at_most_once_witness:
  "\<exists>s. run sys0 [ReaderRead (ReadOk [104, 105]), DispRecv, DispHandle, ReaderRead ReadEOF,
                  SenderQuit, DispQuit] = Some s
       \<and> waitConn (cn s) \<and> reader s = RExited \<and> step s (ReaderRead ReadEOF) = None
       \<and> closes (trace s) = 1 \<and> close_panics (trace s) = 0 \<and> close_callbacks (trace s) = 1"
proof -
  have "run sys0 [ReaderRead (ReadOk [104, 105]), DispRecv, DispHandle, ReaderRead ReadEOF,
                  SenderQuit, DispQuit] \<noteq> None"
    by (simp add: run_eval)
  then obtain s where r: "run (sys_init (NewTcpServer ''989'') nc0 1 ())
      [ReaderRead (ReadOk [104, 105]), DispRecv, DispHandle, ReaderRead ReadEOF,
       SenderQuit, DispQuit] = Some s"
    unfolding sys0_def by blast
  have n: "closeCallback (NewTcpServer ''989'' :: unit tcpServer) \<noteq> None"
    by (simp add: NewTcpServer_def)
  have w: "waitConn (cn s)"
    using run_waitConn [OF r] by simp
  from close_at_most_once [OF r, of ReadEOF] n w
  have "reader s = RExited \<and> step s (ReaderRead ReadEOF) = None
       \<and> closes (trace s) = 1 \<and> close_panics (trace s) = 0 \<and> close_callbacks (trace s) = 1"
    by simp
  with r w show ?thesis unfolding sys0_def by blast
qed

subsection \<open>Read errors\<close>

text \<open>
  Claim C2, on the code. The Reader reads only at its \<^verbatim>\<open>select\<close> with \<^verbatim>\<open>waitConn\<close>
  open. With a callback \<open>f\<close> in the slot: on \<^verbatim>\<open>io.EOF\<close> it closes \<^verbatim>\<open>waitConn\<close>, calls
  \<open>f\<close> with \<^verbatim>\<open>isServer = false\<close> and \<^verbatim>\<open>isClient = true\<close> and returns; on a
  \<^verbatim>\<open>*net.OpError\<close> it does the same with \<^verbatim>\<open>isServer = true\<close> and \<^verbatim>\<open>isClient = false\<close>. On
  any other error it returns and neither closes the channel nor calls \<open>f\<close>, but it logs
  nothing either: the event that \<^verbatim>\<open>log.Err\<close> starts is never sent, and the run shows no
  trace of the error.
\<close>

theorem read_error_classification:
  assumes "\<not> crashed s" and "reader s = RSelect" and "\<not> waitConn (cn s)"
    and "closeCallback (srv s) = Some f"
  shows "step s (ReaderRead r) = Some (readerRead s r)
     \<and> readerRead s ReadEOF =
         s\<lparr>cn := (cn s)\<lparr>waitConn := True\<rparr>,
           world := f ((cn s)\<lparr>waitConn := True\<rparr>) False True (world s),
           trace := trace s @ [EvCloseWaitConn, EvCloseCallback False True],
           reader := RExited\<rparr>
     \<and> readerRead s ReadOpError =
         s\<lparr>cn := (cn s)\<lparr>waitConn := True\<rparr>,
           world := f ((cn s)\<lparr>waitConn := True\<rparr>) True False (world s),
           trace := trace s @ [EvCloseWaitConn, EvCloseCallback True False],
           reader := RExited\<rparr>
     \<and> readerRead s ReadOtherError = s\<lparr>reader := RExited\<rparr>
     \<and> trace (readerRead s ReadOtherError) = trace s
     \<and> world (readerRead s ReadOtherError) = world s"
  using assms
  by (simp add: step_def output_senders_def readerRead_def handelReadClose_def Let_def
        log_Err_def)

theorem read_error_classification_witness:
  "\<not> crashed sys0 \<and> reader sys0 = RSelect \<and> \<not> waitConn (cn sys0)
   \<and> closeCallback (srv sys0) = Some (\<lambda>c isServer isClient w. w)
   \<and> trace (readerRead sys0 ReadEOF) = [EvCloseWaitConn, EvCloseCallback False True]
   \<and> trace (readerRead sys0 ReadOpError) = [EvCloseWaitConn, EvCloseCallback True False]
   \<and> trace (readerRead sys0 ReadOtherError) = []
   \<and> step sys0 (ReaderRead ReadOtherError) = Some (sys0\<lparr>reader := RExited\<rparr>)"
proof -
  have a: "\<not> crashed sys0" and b: "reader sys0 = RSelect" and c: "\<not> waitConn (cn sys0)"
    and d: "closeCallback (srv sys0) = Some (\<lambda>c isServer isClient w. w)"
    and e: "trace sys0 = []"
    by (simp_all add: sys0_def sys_init_def NewTcpServer_def)
  from read_error_classification [OF a b c d, of ReadOtherError]
  show ?thesis using a b c d e by simp
qed

subsection \<open>The inbound frames\<close>

text \<open>
  Claim C8. In every run of a connection's tasks the frames the Reader has read are, in
  the order read, the frames the Dispatcher has taken and printed, followed by the at
  most two still in flight; the Reader's branch that receives from \<^verbatim>\<open>conn.output\<close> is
  never ready and has never run; with a receive callback in the slot the callback got
  exactly the frames printed, in that order; and unless a task has panicked the
  Dispatcher can go on to deliver the frames in flight.
\<close>

theorem reader_frames_dispatched_in_order:
  assumes "run (sys_init l nc i w) acts = Some s"
  shows "frames_read acts = printed s @ in_flight s
     \<and> drains (trace s) = []
     \<and> step s ReaderDrain = None
     \<and> (receiveCallback l \<noteq> None \<longrightarrow> delivered (trace s) = printed s)
     \<and> (\<not> crashed s \<longrightarrow>
          (\<exists>s'. run s (flush s) = Some s' \<and> in_flight s' = []
                \<and> printed s' = frames_read acts))"
proof (intro conjI impI)
  show f: "frames_read acts = printed s @ in_flight s"
    using run_frames [OF assms] by (simp add: sys_init_def in_flight_def output_senders_def)
  show "drains (trace s) = []"
    using run_drains [OF assms] by (simp add: sys_init_def)
  show "step s ReaderDrain = None" by (rule step_ReaderDrain)
  show "delivered (trace s) = printed s" if "receiveCallback l \<noteq> None"
    using run_delivered [OF assms] that by (simp add: sys_init_def)
  show "\<exists>s'. run s (flush s) = Some s' \<and> in_flight s' = [] \<and> printed s' = frames_read acts"
    if "\<not> crashed s"
    using flush_run [OF that run_close_inv [OF assms close_inv_init]] f by simp
qed

theorem reader_frames_dispatched_in_order_witness:
  "\<exists>s. run sys0 [ReaderRead (ReadOk [1]), DispRecv, ReaderRead (ReadOk [2]), DispHandle,
                  DispRecv, ReaderRead (ReadOk [3])] = Some s
       \<and> printed s @ in_flight s = [[1], [2], [3]]
       \<and> delivered (trace s) = printed s
       \<and> (\<exists>s'. run s (flush s) = Some s' \<and> printed s' = [[1], [2], [3]])"
proof -
  have "run sys0 [ReaderRead (ReadOk [1]), DispRecv, ReaderRead (ReadOk [2]), DispHandle,
                  DispRecv, ReaderRead (ReadOk [3])] \<noteq> None"
    by (simp add: run_eval)
  then obtain s where r: "run (sys_init (NewTcpServer ''989'') nc0 1 ())
      [ReaderRead (ReadOk [1]), DispRecv, ReaderRead (ReadOk [2]), DispHandle,
       DispRecv, ReaderRead (ReadOk [3])] = Some s"
    unfolding sys0_def by blast
  have c: "receiveCallback (NewTcpServer ''989'' :: unit tcpServer) \<noteq> None"
    by (simp add: NewTcpServer_def)
  have n: "\<not> crashed s" using r
    by (simp add: run_eval split: if_splits option.splits) auto
  have "printed s @ in_flight s = [[1], [2], [3]]
       \<and> delivered (trace s) = printed s
       \<and> (\<exists>s'. run s (flush s) = Some s' \<and> printed s' = [[1], [2], [3]])"
    using reader_frames_dispatched_in_order [OF r] c n by auto
  with r show ?thesis unfolding sys0_def by blast
qed

subsection \<open>Sending to a connection\<close>

text \<open>
  Claim C9 as stated fails. After the peer has closed the connection and the Sender has
  returned, a send on \<^verbatim>\<open>conn.input\<close> never completes, whatever the tasks do afterwards:
  the caller of \<^verbatim>\<open>Send\<close> or \<^verbatim>\<open>Broadcast\<close> stays blocked.
\<close>

theorem send_to_closed_connection_blocks:
  "run sys0 [ReaderRead ReadEOF, SenderQuit, CallSend [104, 105]] \<noteq> None
   \<and> \<not> (\<exists>acts s. run sys0 ([ReaderRead ReadEOF, SenderQuit, CallSend [104, 105]] @ acts) = Some s
            \<and> (sends_done (trace s) \<noteq> [] \<or> [104, 105] \<notin> set (sending s)))"
proof
  show "run sys0 [ReaderRead ReadEOF, SenderQuit, CallSend [104, 105]] \<noteq> None"
    by (simp add: run_eval)
  have h: "sends_done (trace s) = [] \<and> [104, 105] \<in> set (sending s)"
    if "run sys0 ([ReaderRead ReadEOF, SenderQuit, CallSend [104, 105]] @ acts) = Some s"
    for acts s
  proof -
    from that obtain s1
      where a: "run sys0 [ReaderRead ReadEOF, SenderQuit, CallSend [104, 105]] = Some s1"
      and b: "run s1 acts = Some s"
      unfolding run_append_Some by blast
    from a have c: "sender s1 = SExited \<and> sending s1 = [[104, 105]]
        \<and> trace s1 = [EvCloseWaitConn, EvCloseCallback False True]"
      by (auto simp: run_eval)
    then have "sends_done (trace s1) = []" by (simp add: sends_done_def)
    with run_sender_exited [OF b] c show ?thesis by auto
  qed
  show "\<not> (\<exists>acts s. run sys0 ([ReaderRead ReadEOF, SenderQuit, CallSend [104, 105]] @ acts) = Some s
            \<and> (sends_done (trace s) \<noteq> [] \<or> [104, 105] \<notin> set (sending s)))"
  proof
    assume "\<exists>acts s. run sys0 ([ReaderRead ReadEOF, SenderQuit, CallSend [104, 105]] @ acts) = Some s
            \<and> (sends_done (trace s) \<noteq> [] \<or> [104, 105] \<notin> set (sending s))"
    then obtain acts s
      where r: "run sys0 ([ReaderRead ReadEOF, SenderQuit, CallSend [104, 105]] @ acts) = Some s"
      and q: "sends_done (trace s) \<noteq> [] \<or> [104, 105] \<notin> set (sending s)"
      by blast
    from h [OF r] q show False by simp
  qed
qed

text \<open>
  Claim C9, amended. The send \<^verbatim>\<open>conn.input <- v\<close> of \<^verbatim>\<open>Send\<close> and \<^verbatim>\<open>Broadcast\<close> never
  panics; it completes only in a step in which the connection's Sender, at its
  \<^verbatim>\<open>select\<close>, receives the payload; and once the Sender has returned no send to the
  connection completes any more, so that every caller stays blocked.
\<close>

theorem send_completes_only_by_sender:
  "(\<not> crashed s \<longrightarrow>
      step s (CallSend v) = Some (s\<lparr>sending := sending s @ [v]\<rparr>)
      \<and> \<not> crashed (s\<lparr>sending := sending s @ [v]\<rparr>))
   \<and> (step s a = Some s1 \<and> sends_done (trace s1) \<noteq> sends_done (trace s) \<longrightarrow>
        sender s = SSelect
        \<and> (\<exists>i. a = SenderRecv i \<and> i < length (sending s)
                \<and> sends_done (trace s1) = sends_done (trace s) @ [EvSendDone (sending s ! i)]))
   \<and> (run s acts = Some s' \<and> sender s = SExited \<longrightarrow>
        sender s' = SExited \<and> sends_done (trace s') = sends_done (trace s)
        \<and> (\<exists>ys. sending s' = sending s @ ys))"
proof (intro conjI impI)
  assume "\<not> crashed s"
  then show "step s (CallSend v) = Some (s\<lparr>sending := sending s @ [v]\<rparr>)"
    by (simp add: step_def)
  show "\<not> crashed (s\<lparr>sending := sending s @ [v]\<rparr>)" using \<open>\<not> crashed s\<close> by simp
next
  assume h: "step s a = Some s1 \<and> sends_done (trace s1) \<noteq> sends_done (trace s)"
  then have st: "step s a = Some s1" and ne: "sends_done (trace s1) \<noteq> sends_done (trace s)"
    by simp_all
  from st ne show "sender s = SSelect"
    by (cases rule: step_cases) (simp_all add: trace_appends)
  from st ne show "\<exists>i. a = SenderRecv i \<and> i < length (sending s)
                \<and> sends_done (trace s1) = sends_done (trace s) @ [EvSendDone (sending s ! i)]"
    by (cases rule: step_cases) (simp_all add: trace_appends)
next
  assume h: "run s acts = Some s' \<and> sender s = SExited"
  then have r: "run s acts = Some s'" and e: "sender s = SExited" by simp_all
  from run_sender_exited [OF r e]
  show "sender s' = SExited" and "sends_done (trace s') = sends_done (trace s)"
    and "\<exists>ys. sending s' = sending s @ ys"
    by simp_all
qed


lemma sys_closed_reached: "run sys0 [ReaderRead ReadEOF, SenderQuit] = Some sys_closed"
  by (simp add: sys_closed_def run_eval)

theorem send_completes_only_by_sender_witness:
  "\<not> crashed sys0
   \<and> step sys0 (CallSend [104, 105]) = Some (sys0\<lparr>sending := sending sys0 @ [[104, 105]]\<rparr>)
   \<and> step (sys0\<lparr>sending := [[104, 105]]\<rparr>) (SenderRecv 0)
        = Some (sys0\<lparr>sending := [], trace := [EvSendDone [104, 105]], sender := SLock [104, 105]\<rparr>)
   \<and> sends_done (trace (sys0\<lparr>sending := [], trace := [EvSendDone [104, 105]],
                                sender := SLock [104, 105]\<rparr>))
        \<noteq> sends_done (trace (sys0\<lparr>sending := [[104, 105]]\<rparr>))
   \<and> sender (sys0\<lparr>sending := [[104, 105]]\<rparr>) = SSelect
   \<and> run sys_closed [CallSend [104, 105], DispQuit]
        = Some (sys_closed\<lparr>sending := [[104, 105]], dispatcher := DExited\<rparr>)
   \<and> sender sys_closed = SExited
   \<and> sends_done (trace (sys_closed\<lparr>sending := [[104, 105]], dispatcher := DExited\<rparr>))
        = sends_done (trace sys_closed)"
proof -
  have a: "\<not> crashed sys0" by (simp add: run_eval)
  have b: "step (sys0\<lparr>sending := [[104, 105]]\<rparr>) (SenderRecv 0)
        = Some (sys0\<lparr>sending := [], trace := [EvSendDone [104, 105]], sender := SLock [104, 105]\<rparr>)"
    by (simp add: run_eval)
  have c: "sends_done (trace (sys0\<lparr>sending := [], trace := [EvSendDone [104, 105]],
                                sender := SLock [104, 105]\<rparr>))
        \<noteq> sends_done (trace (sys0\<lparr>sending := [[104, 105]]\<rparr>))"
    by (simp add: run_eval sends_done_def)
  have d: "run sys_closed [CallSend [104, 105], DispQuit]
        = Some (sys_closed\<lparr>sending := [[104, 105]], dispatcher := DExited\<rparr>)"
    by (simp add: sys_closed_def run_eval)
  have e: "sender sys_closed = SExited" by (simp add: sys_closed_def)
  have 1: "step sys0 (CallSend [104, 105]) = Some (sys0\<lparr>sending := sending sys0 @ [[104, 105]]\<rparr>)"
    using send_completes_only_by_sender [where s = sys0 and v = "[104, 105]"] a by blast
  have 2: "sender (sys0\<lparr>sending := [[104, 105]]\<rparr>) = SSelect"
    using send_completes_only_by_sender [where s = "sys0\<lparr>sending := [[104, 105]]\<rparr>"
      and a = "SenderRecv 0"
      and ?s1.0 = "sys0\<lparr>sending := [], trace := [EvSendDone [104, 105]], sender := SLock [104, 105]\<rparr>"] b c
    by blast
  have 3: "sends_done (trace (sys_closed\<lparr>sending := [[104, 105]], dispatcher := DExited\<rparr>))
        = sends_done (trace sys_closed)"
    using send_completes_only_by_sender [where s = sys_closed
      and acts = "[CallSend [104, 105], DispQuit]"
      and s' = "sys_closed\<lparr>sending := [[104, 105]], dispatcher := DExited\<rparr>"] d e
    by blast
  show ?thesis using a b c d e 1 2 3 by blast
qed

end
